theory Spec2Isabelle
  imports Main "HOL-Library.Multiset"
begin

section \<open>The 3D Print Inbox: data model\<close>

text \<open>
  The program is one React component, \<^verbatim>\<open>PrintInboxHub\<close> in
  \<^verbatim>\<open>src/PrintInboxHub2.jsx\<close>, with a handful of pure helpers above it
  (\<^verbatim>\<open>toCSV\<close>, \<^verbatim>\<open>triageBuckets\<close>, \<^verbatim>\<open>sortRequests\<close>).
  A request is a plain JavaScript object; the fields the code reads are the ones of the
  record below, \<^verbatim>\<open>id\<close> under the name \<open>rid\<close>. JavaScript strings are modelled
  as \<open>string\<close>. \<^verbatim>\<open>dueDate\<close> is \<^verbatim>\<open>undefined\<close> for a request without a
  due date, hence an option.
\<close>

record request =
  rid :: string
  createdAt :: string
  name :: string
  description :: string
  dueDate :: "string option"
  priority :: string
  status :: string
  devNotes :: string
  pinned :: bool
  synced :: bool

text \<open>
  The code tests \<^verbatim>\<open>r.dueDate\<close> for truthiness (\<^verbatim>\<open>if (!iso)\<close>,
  \<^verbatim>\<open>a.dueDate ? ... : Infinity\<close>, \<^verbatim>\<open>r.dueDate || ""\<close>): \<^verbatim>\<open>undefined\<close>
  and the empty string are both falsy.
\<close>

fun truthy :: "string option \<Rightarrow> bool" where
  "truthy None = False"
| "truthy (Some s) = (s \<noteq> [])"

section \<open>JavaScript numbers, as far as the comparator needs them\<close>

text \<open>
  \<^verbatim>\<open>new Date(s).getTime()\<close> is an integral number of milliseconds, or \<^verbatim>\<open>NaN\<close>
  for an invalid date; the comparator of \<^verbatim>\<open>sortRequests\<close> also uses
  \<^verbatim>\<open>Infinity\<close>. Time values are below \<open>8.64e15\<close> in magnitude, and the
  difference of two doubles is zero only when they are equal, so the sign of a
  difference, which is all that \<^verbatim>\<open>Array.prototype.sort\<close> reads, is the sign of
  the exact integer difference.
\<close>

datatype number = Fin int | PInf | NInf | NaN

fun minus_num :: "number \<Rightarrow> number \<Rightarrow> number" where
  "minus_num NaN _ = NaN"
| "minus_num _ NaN = NaN"
| "minus_num (Fin a) (Fin b) = Fin (a - b)"
| "minus_num (Fin _) PInf = NInf"
| "minus_num (Fin _) NInf = PInf"
| "minus_num PInf PInf = NaN"
| "minus_num PInf _ = PInf"
| "minus_num NInf NInf = NaN"
| "minus_num NInf _ = NInf"

text \<open>
  Parsing a date string is the platform's business (\<^verbatim>\<open>new Date(iso)\<close>); it is a
  parameter \<open>parse\<close> of the model, \<open>None\<close> standing for an invalid date.
\<close>

definition getTime :: "(string \<Rightarrow> int option) \<Rightarrow> string \<Rightarrow> number" where
  "getTime parse s = (case parse s of None \<Rightarrow> NaN | Some t \<Rightarrow> Fin t)"

text \<open>\<^verbatim>\<open>priorityRank[p]\<close> is \<^verbatim>\<open>undefined\<close> for a key outside the table, and
  \<^verbatim>\<open>undefined\<close> in a subtraction is \<^verbatim>\<open>NaN\<close>.\<close>

definition priorityRank :: "string \<Rightarrow> number" where
  "priorityRank p =
     (if p = ''Low'' then Fin 0
      else if p = ''Normal'' then Fin 1
      else if p = ''High'' then Fin 2
      else if p = ''Urgent'' then Fin 3
      else NaN)"

section \<open>sortRequests\<close>

text \<open>The comparator handed to \<^verbatim>\<open>copy.sort\<close>, line by line.\<close>

definition compareRequests ::
  "(string \<Rightarrow> int option) \<Rightarrow> string \<Rightarrow> request \<Rightarrow> request \<Rightarrow> number" where
  "compareRequests parse sortKey a b =
     (if pinned a \<and> \<not> pinned b then Fin (- 1)
      else if pinned b \<and> \<not> pinned a then Fin 1
      else if sortKey = ''oldest'' then
        minus_num (getTime parse (createdAt a)) (getTime parse (createdAt b))
      else if sortKey = ''due'' then
        (let ad = (if truthy (dueDate a) then getTime parse (the (dueDate a)) else PInf);
             bd = (if truthy (dueDate b) then getTime parse (the (dueDate b)) else PInf)
         in minus_num ad bd)
      else if sortKey = ''priority'' then
        minus_num (priorityRank (priority b)) (priorityRank (priority a))
      else
        minus_num (getTime parse (createdAt b)) (getTime parse (createdAt a)))"

text \<open>
  \<^verbatim>\<open>Array.prototype.sort\<close> reads a comparator's result through SortCompare: a
  \<^verbatim>\<open>NaN\<close> counts as \<open>0\<close>, a negative value puts the first argument first. The
  sort is stable. For a consistent comparator ECMAScript fixes the result, and it is the
  one a stable insertion sort computes; for an inconsistent one (a \<^verbatim>\<open>NaN\<close> among
  the keys) the order is implementation-defined, and the insertion sort is one
  admissible implementation.
\<close>

fun before_eq :: "number \<Rightarrow> bool" where
  "before_eq (Fin v) = (v \<le> 0)"
| "before_eq PInf = False"
| "before_eq NInf = True"
| "before_eq NaN = True"

fun insert_by :: "('a \<Rightarrow> 'a \<Rightarrow> number) \<Rightarrow> 'a \<Rightarrow> 'a list \<Rightarrow> 'a list" where
  "insert_by cmp x [] = [x]"
| "insert_by cmp x (y # ys) =
     (if before_eq (cmp x y) then x # y # ys else y # insert_by cmp x ys)"

fun sort_by :: "('a \<Rightarrow> 'a \<Rightarrow> number) \<Rightarrow> 'a list \<Rightarrow> 'a list" where
  "sort_by cmp [] = []"
| "sort_by cmp (x # xs) = insert_by cmp x (sort_by cmp xs)"

definition sortRequests ::
  "(string \<Rightarrow> int option) \<Rightarrow> request list \<Rightarrow> string \<Rightarrow> request list" where
  "sortRequests parse reqs sortKey = sort_by (compareRequests parse sortKey) reqs"

section \<open>The filtered view (query)\<close>

text \<open>
  The \<^verbatim>\<open>filtered\<close> memo of the component: a search term, a status filter and a
  priority filter, then \<^verbatim>\<open>sortRequests\<close>. A \<open>string\<close> is a sequence of code
  units below 256 (Latin-1): \<^verbatim>\<open>toLowerCase\<close> maps the capital letters among them
  (\<open>A\<close>..\<open>Z\<close> and 192..222 without the multiplication sign), \<^verbatim>\<open>trim\<close> strips
  the white space and the line terminators among them.
\<close>

definition lowerChar :: "char \<Rightarrow> char" where
  "lowerChar c =
     (let n = (of_char c :: nat) in
      if (65 \<le> n \<and> n \<le> 90) \<or> (192 \<le> n \<and> n \<le> 222 \<and> n \<noteq> 215)
      then char_of (n + 32) else c)"

definition toLowerCase :: "string \<Rightarrow> string" where
  "toLowerCase s = map lowerChar s"

definition isWhite :: "char \<Rightarrow> bool" where
  "isWhite c = ((of_char c :: nat) \<in> {9, 10, 11, 12, 13, 32, 160})"

definition trim :: "string \<Rightarrow> string" where
  "trim s = rev (dropWhile isWhite (rev (dropWhile isWhite s)))"

fun isPrefix :: "string \<Rightarrow> string \<Rightarrow> bool" where
  "isPrefix [] _ = True"
| "isPrefix (_ # _) [] = False"
| "isPrefix (x # xs) (y # ys) = (x = y \<and> isPrefix xs ys)"

fun includesStr :: "string \<Rightarrow> string \<Rightarrow> bool" where
  "includesStr [] t = (t = [])"
| "includesStr (c # cs) t = (isPrefix t (c # cs) \<or> includesStr cs t)"

record filterSpec =
  search :: string
  statusFilter :: string
  priorityFilter :: string

definition matches :: "filterSpec \<Rightarrow> request \<Rightarrow> bool" where
  "matches f r =
     (let term = trim (toLowerCase (search f));
          matchesTerm = (term = [] \<or> includesStr (toLowerCase (name r)) term
                         \<or> includesStr (toLowerCase (description r)) term);
          matchesStatus = (statusFilter f = ''All'' \<or> status r = statusFilter f);
          matchesPriority = (priorityFilter f = ''All'' \<or> priority r = priorityFilter f)
      in matchesTerm \<and> matchesStatus \<and> matchesPriority)"

definition filtered ::
  "(string \<Rightarrow> int option) \<Rightarrow> request list \<Rightarrow> filterSpec \<Rightarrow> string \<Rightarrow> request list" where
  "filtered parse collection f sortKey = sortRequests parse (filter (matches f) collection) sortKey"

section \<open>Dates: the calendar functions of ECMAScript\<close>

text \<open>
  \<^verbatim>\<open>triageBuckets\<close> reads the local calendar date of a time value
  (\<^verbatim>\<open>getFullYear\<close>, \<^verbatim>\<open>getMonth\<close>, \<^verbatim>\<open>getDate\<close>) and truncates the
  current time to local midnight (\<^verbatim>\<open>setHours(0, 0, 0, 0)\<close>). These are the
  platform's functions; they are modelled as ECMAScript defines them (section
  "Date Objects": Day, DaysInYear, DayFromYear, YearFromTime, InLeapYear,
  DayWithinYear, MonthFromTime, DateFromTime, LocalTime, UTC), on time values in
  milliseconds as integers.
\<close>

definition msPerDay :: int where
  "msPerDay = 86400000"

definition Day :: "int \<Rightarrow> int" where
  "Day t = t div msPerDay"

definition DaysInYear :: "int \<Rightarrow> int" where
  "DaysInYear y =
     (if y mod 4 \<noteq> 0 then 365
      else if y mod 100 \<noteq> 0 then 366
      else if y mod 400 \<noteq> 0 then 365
      else 366)"

definition DayFromYear :: "int \<Rightarrow> int" where
  "DayFromYear y =
     365 * (y - 1970) + (y - 1969) div 4 - (y - 1901) div 100 + (y - 1601) div 400"

text \<open>A year starts where the year before it ends; needed for the search below to end.\<close>

lemma div_step:
  fixes a k :: int
  assumes k: "0 < k"
  shows "(a + 1) div k = (if (a + 1) mod k = 0 then a div k + 1 else a div k)"
proof -
  have r: "0 \<le> a mod k" "a mod k < k" using k by simp_all
  show ?thesis
  proof (cases "a mod k + 1 = k")
    case True
    have "a + 1 = k * (a div k) + (a mod k + 1)"
      by (simp only: mult_div_mod_eq add.assoc [symmetric])
    also have "\<dots> = k * (a div k) + k"
      by (simp only: True)
    also have "\<dots> = k * (a div k + 1) + 0"
      by (simp add: algebra_simps)
    finally have e: "a + 1 = k * (a div k + 1) + 0" .
    have "(a + 1) div k = a div k + 1"
      using e _ k by (rule int_div_pos_eq) simp
    moreover have "(a + 1) mod k = 0"
      using e _ k by (rule int_mod_pos_eq) simp
    ultimately show ?thesis by simp
  next
    case False
    have e: "a + 1 = k * (a div k) + (a mod k + 1)"
      by (simp only: mult_div_mod_eq add.assoc [symmetric])
    have lt: "a mod k + 1 < k" using r False by simp
    have "(a + 1) div k = a div k"
      using e _ lt by (rule int_div_pos_eq) (use r in simp)
    moreover have "(a + 1) mod k = a mod k + 1"
      using e _ lt by (rule int_mod_pos_eq) (use r in simp)
    ultimately show ?thesis using r by simp
  qed
qed

lemma mod_shift: "((y::int) - k * c) mod k = y mod k"
proof -
  have "y - k * c = y + k * (- c)" by simp
  then show ?thesis by (simp only: mod_mult_self2)
qed

lemma mod4_shift: "((y::int) - 1969 + 1) mod 4 = 0 \<longleftrightarrow> y mod 4 = 0"
  using mod_shift [of y 4 492] by simp

lemma mod100_shift: "((y::int) - 1901 + 1) mod 100 = 0 \<longleftrightarrow> y mod 100 = 0"
  using mod_shift [of y 100 19] by simp

lemma mod400_shift: "((y::int) - 1601 + 1) mod 400 = 0 \<longleftrightarrow> y mod 400 = 0"
  using mod_shift [of y 400 4] by simp

lemma mod100_mod4: "(y::int) mod 100 = 0 \<Longrightarrow> y mod 4 = 0"
proof -
  assume "y mod 100 = 0"
  then have "100 dvd y" by (simp add: mod_eq_0_iff_dvd)
  moreover have "(4::int) dvd 100" by simp
  ultimately have "4 dvd y" by (rule dvd_trans [rotated])
  then show ?thesis by (simp add: mod_eq_0_iff_dvd)
qed

lemma mod400_mod100: "(y::int) mod 400 = 0 \<Longrightarrow> y mod 100 = 0"
proof -
  assume "y mod 400 = 0"
  then have "400 dvd y" by (simp add: mod_eq_0_iff_dvd)
  moreover have "(100::int) dvd 400" by simp
  ultimately have "100 dvd y" by (rule dvd_trans [rotated])
  then show ?thesis by (simp add: mod_eq_0_iff_dvd)
qed

lemma DayFromYear_Suc: "DayFromYear (y + 1) = DayFromYear y + DaysInYear y"
proof -
  have a: "(y + 1 - 1969) div 4 = (if y mod 4 = 0 then (y - 1969) div 4 + 1 else (y - 1969) div 4)"
    using div_step [of 4 "y - 1969"] mod4_shift [of y] by (simp add: algebra_simps)
  have b: "(y + 1 - 1901) div 100 = (if y mod 100 = 0 then (y - 1901) div 100 + 1 else (y - 1901) div 100)"
    using div_step [of 100 "y - 1901"] mod100_shift [of y] by (simp add: algebra_simps)
  have c: "(y + 1 - 1601) div 400 = (if y mod 400 = 0 then (y - 1601) div 400 + 1 else (y - 1601) div 400)"
    using div_step [of 400 "y - 1601"] mod400_shift [of y] by (simp add: algebra_simps)
  show ?thesis
    unfolding DayFromYear_def DaysInYear_def a b c
    using mod100_mod4 [of y] mod400_mod100 [of y] by auto
qed

lemma DayFromYear_less: "DayFromYear y < DayFromYear (y + 1)"
  by (simp add: DayFromYear_Suc DaysInYear_def)

function yearDown :: "int \<Rightarrow> int \<Rightarrow> int" where
  "yearDown d y = (if d < DayFromYear y then yearDown d (y - 1) else y)"
  by pat_completeness auto
termination
proof (relation "measure (\<lambda>(d, y). nat (DayFromYear y - d))")
  show "wf (measure (\<lambda>(d, y). nat (DayFromYear y - d)))" by simp
next
  fix d y :: int
  assume "d < DayFromYear y"
  moreover have "DayFromYear (y - 1) < DayFromYear y"
    using DayFromYear_less [of "y - 1"] by simp
  ultimately show "((d, y - 1), (d, y)) \<in> measure (\<lambda>(d, y). nat (DayFromYear y - d))"
    by simp
qed

function yearUp :: "int \<Rightarrow> int \<Rightarrow> int" where
  "yearUp d y = (if DayFromYear (y + 1) \<le> d then yearUp d (y + 1) else y)"
  by pat_completeness auto
termination
proof (relation "measure (\<lambda>(d, y). nat (d + 1 - DayFromYear (y + 1)))")
  show "wf (measure (\<lambda>(d, y). nat (d + 1 - DayFromYear (y + 1))))" by simp
next
  fix d y :: int
  assume "DayFromYear (y + 1) \<le> d"
  moreover have "DayFromYear (y + 1) < DayFromYear (y + 1 + 1)"
    by (rule DayFromYear_less)
  ultimately show "((d, y + 1), (d, y)) \<in> measure (\<lambda>(d, y). nat (d + 1 - DayFromYear (y + 1)))"
    by simp
qed

declare yearDown.simps [simp del] yearUp.simps [simp del]

text \<open>
  \<^verbatim>\<open>YearFromTime(t)\<close> is the largest year \<open>y\<close> with \<open>TimeFromYear(y) \<le> t\<close>,
  that is with \<open>DayFromYear y \<le> Day t\<close>: a search down, then up, from an estimate.
\<close>

definition YearFromTime :: "int \<Rightarrow> int" where
  "YearFromTime t = yearUp (Day t) (yearDown (Day t) (1970 + Day t div 366))"

definition InLeapYear :: "int \<Rightarrow> int" where
  "InLeapYear t = (if DaysInYear (YearFromTime t) = 365 then 0 else 1)"

definition DayWithinYear :: "int \<Rightarrow> int" where
  "DayWithinYear t = Day t - DayFromYear (YearFromTime t)"

text \<open>
  The month and the day of the month, by the tables of ECMAScript. The day within the
  year lies between 0 and the length of the year (\<open>DayWithinYear_range\<close> below), so
  the first and the last row need no bound of their own.
\<close>

definition MonthFromTime :: "int \<Rightarrow> int" where
  "MonthFromTime t =
     (let d = DayWithinYear t; l = InLeapYear t in
      if d < 31 then 0
      else if d < 59 + l then 1
      else if d < 90 + l then 2
      else if d < 120 + l then 3
      else if d < 151 + l then 4
      else if d < 181 + l then 5
      else if d < 212 + l then 6
      else if d < 243 + l then 7
      else if d < 273 + l then 8
      else if d < 304 + l then 9
      else if d < 334 + l then 10
      else 11)"

definition DateFromTime :: "int \<Rightarrow> int" where
  "DateFromTime t =
     (let d = DayWithinYear t; l = InLeapYear t; m = MonthFromTime t in
      if m = 0 then d + 1
      else if m = 1 then d - 30
      else if m = 2 then d - 58 - l
      else if m = 3 then d - 89 - l
      else if m = 4 then d - 119 - l
      else if m = 5 then d - 150 - l
      else if m = 6 then d - 180 - l
      else if m = 7 then d - 211 - l
      else if m = 8 then d - 242 - l
      else if m = 9 then d - 272 - l
      else if m = 10 then d - 303 - l
      else d - 333 - l)"


section \<open>Local time\<close>

text \<open>
  \<^verbatim>\<open>LocalTime(t) = t + LocalTZA(t, true)\<close> and
  \<^verbatim>\<open>UTC(t) = t - LocalTZA(t, false)\<close>, where \<^verbatim>\<open>LocalTZA\<close> is the offset of
  the platform's time zone: at the instant \<open>t\<close> when the flag is true, for the local
  time \<open>t\<close> when it is false. The zone is a parameter of the model, given as its
  table: the offset before the first clock change, and the clock changes in order, each
  with its instant and the offset from then on (all in milliseconds).
\<close>

record zone =
  baseOffset :: int
  transitions :: "(int \<times> int) list"

text \<open>The offset in force at an instant.\<close>

fun offsetAt :: "int \<Rightarrow> (int \<times> int) list \<Rightarrow> int \<Rightarrow> int" where
  "offsetAt off [] t = off"
| "offsetAt off ((T, off') # ts) t = (if t < T then off else offsetAt off' ts t)"

text \<open>
  The offset for a local time. A local time that a clock change repeats (the clock was
  set back) or skips (set forward) is read with the offset before the change, as
  ECMAScript requires: the first of the periods that the local time does not lie behind.
\<close>

fun offsetOfLocal :: "int \<Rightarrow> (int \<times> int) list \<Rightarrow> int \<Rightarrow> int" where
  "offsetOfLocal off [] lt = off"
| "offsetOfLocal off ((T, off') # ts) lt =
     (if lt < T + off \<or> lt < T + off' then off else offsetOfLocal off' ts lt)"

definition LocalTZA :: "zone \<Rightarrow> int \<Rightarrow> bool \<Rightarrow> int" where
  "LocalTZA z t isUTC =
     (if isUTC then offsetAt (baseOffset z) (transitions z) t
      else offsetOfLocal (baseOffset z) (transitions z) t)"

definition LocalTime :: "zone \<Rightarrow> int \<Rightarrow> int" where
  "LocalTime z t = t + LocalTZA z t True"

definition UTC :: "zone \<Rightarrow> int \<Rightarrow> int" where
  "UTC z t = t - LocalTZA z t False"

text \<open>
  \<^verbatim>\<open>today.setHours(0, 0, 0, 0)\<close>: the local time of the date, its time within the
  day set to zero, converted back. The getters read the local time of a date.
\<close>

definition setHours0 :: "zone \<Rightarrow> int \<Rightarrow> int" where
  "setHours0 z t = UTC z (Day (LocalTime z t) * msPerDay)"

definition getFullYear :: "zone \<Rightarrow> int \<Rightarrow> int" where
  "getFullYear z t = YearFromTime (LocalTime z t)"

definition getMonth :: "zone \<Rightarrow> int \<Rightarrow> int" where
  "getMonth z t = MonthFromTime (LocalTime z t)"

definition getDate :: "zone \<Rightarrow> int \<Rightarrow> int" where
  "getDate z t = DateFromTime (LocalTime z t)"




definition fixedZone :: "int \<Rightarrow> zone" where
  "fixedZone off = \<lparr>baseOffset = off, transitions = []\<rparr>"

section \<open>triageBuckets\<close>

text \<open>
  The two filters of \<^verbatim>\<open>triageBuckets\<close>. \<open>today\<close> is the current time after
  \<^verbatim>\<open>setHours(0, 0, 0, 0)\<close>.
\<close>

definition isToday :: "(string \<Rightarrow> int option) \<Rightarrow> zone \<Rightarrow> int \<Rightarrow> string option \<Rightarrow> bool" where
  "isToday parse z today isoStr =
     (if \<not> truthy isoStr then False
      else case parse (the isoStr) of
        None \<Rightarrow> False
      | Some d \<Rightarrow>
          getFullYear z d = getFullYear z today \<and>
          getMonth z d = getMonth z today \<and>
          getDate z d = getDate z today)"

definition isOverdue :: "(string \<Rightarrow> int option) \<Rightarrow> int \<Rightarrow> request \<Rightarrow> bool" where
  "isOverdue parse today r =
     (if \<not> truthy (dueDate r) then False
      else case parse (the (dueDate r)) of
        None \<Rightarrow> False
      | Some d \<Rightarrow> d < today \<and> status r \<noteq> ''Done'')"

record buckets =
  overdue :: "request list"
  dueToday :: "request list"

definition triageBuckets ::
  "(string \<Rightarrow> int option) \<Rightarrow> zone \<Rightarrow> int \<Rightarrow> request list \<Rightarrow> buckets" where
  "triageBuckets parse z now reqs =
     (let today = setHours0 z now
      in \<lparr>overdue = filter (isOverdue parse today) reqs,
          dueToday = filter (\<lambda>r. isToday parse z today (dueDate r)) reqs\<rparr>)"

section \<open>toCSV\<close>

text \<open>
  The export. \<^verbatim>\<open>esc\<close> turns \<^verbatim>\<open>undefined\<close> and \<^verbatim>\<open>null\<close> into the empty
  string; in the record every field is a string, and \<^verbatim>\<open>r.dueDate || ""\<close> is the
  empty string for a due date that is falsy. The header line is joined without
  \<^verbatim>\<open>esc\<close>, as in the source.
\<close>

abbreviation comma :: char where "comma \<equiv> CHR '',''"
abbreviation dquote :: char where "dquote \<equiv> CHR 0x22"
abbreviation newline :: char where "newline \<equiv> CHR 0x0A"

fun join :: "string \<Rightarrow> string list \<Rightarrow> string" where
  "join sep [] = []"
| "join sep [x] = x"
| "join sep (x # y # ys) = x @ sep @ join sep (y # ys)"

definition headers :: "string list" where
  "headers = [''createdAt'', ''name'', ''description'', ''dueDate'', ''priority'', ''status'',
     ''devNotes'', ''pinned'']"

definition needsQuote :: "string \<Rightarrow> bool" where
  "needsQuote str = (\<exists>c \<in> set str. c = dquote \<or> c = comma \<or> c = newline)"

definition doubleQuotes :: "string \<Rightarrow> string" where
  "doubleQuotes str = concat (map (\<lambda>c. if c = dquote then [dquote, dquote] else [c]) str)"

definition esc :: "string \<Rightarrow> string" where
  "esc str = (if needsQuote str then [dquote] @ doubleQuotes str @ [dquote] else str)"

definition cells :: "request \<Rightarrow> string list" where
  "cells r =
     [createdAt r, name r, description r,
      (if truthy (dueDate r) then the (dueDate r) else []),
      priority r, status r, devNotes r,
      (if pinned r then ''true'' else ''false'')]"

definition toCSV :: "request list \<Rightarrow> string" where
  "toCSV rows =
     join [newline] (join [comma] headers # map (\<lambda>r. join [comma] (map esc (cells r))) rows)"

section \<open>Reading CSV back\<close>

text \<open>
  Modelled from the spec: "standard CSV parsing" is not code of the repository. It is
  taken as the reader of RFC 4180 as the common libraries implement it: fields are
  separated by commas; a record ends at a line break, which is a line feed, a carriage
  return, or a carriage return followed by a line feed; a field that starts with a
  double quote runs to the closing double quote, two double quotes inside it standing
  for one, and separators and line breaks inside it are content; a final line break
  ends the last record and starts no new one.
\<close>

abbreviation creturn :: char where "creturn \<equiv> CHR 0x0D"

datatype pstate = FieldStart | Unquoted | Quoted | QuoteSeen | AfterCR

fun csv :: "pstate \<Rightarrow> string \<Rightarrow> string list \<Rightarrow> string \<Rightarrow> string list list" where
  "csv FieldStart f [] [] = []"
| "csv AfterCR f [] [] = []"
| "csv st f row [] = [row @ [f]]"
| "csv FieldStart f row (c # cs) =
     (if c = dquote then csv Quoted f row cs
      else if c = comma then csv FieldStart [] (row @ [f]) cs
      else if c = newline then (row @ [f]) # csv FieldStart [] [] cs
      else if c = creturn then (row @ [f]) # csv AfterCR [] [] cs
      else csv Unquoted (f @ [c]) row cs)"
| "csv AfterCR f row (c # cs) =
     (if c = newline then csv FieldStart f row cs
      else if c = dquote then csv Quoted f row cs
      else if c = comma then csv FieldStart [] (row @ [f]) cs
      else if c = creturn then (row @ [f]) # csv AfterCR [] [] cs
      else csv Unquoted (f @ [c]) row cs)"
| "csv Unquoted f row (c # cs) =
     (if c = comma then csv FieldStart [] (row @ [f]) cs
      else if c = newline then (row @ [f]) # csv FieldStart [] [] cs
      else if c = creturn then (row @ [f]) # csv AfterCR [] [] cs
      else csv Unquoted (f @ [c]) row cs)"
| "csv Quoted f row (c # cs) =
     (if c = dquote then csv QuoteSeen f row cs
      else csv Quoted (f @ [c]) row cs)"
| "csv QuoteSeen f row (c # cs) =
     (if c = dquote then csv Quoted (f @ [dquote]) row cs
      else if c = comma then csv FieldStart [] (row @ [f]) cs
      else if c = newline then (row @ [f]) # csv FieldStart [] [] cs
      else if c = creturn then (row @ [f]) # csv AfterCR [] [] cs
      else csv Unquoted (f @ [c]) row cs)"

definition parseCSV :: "string \<Rightarrow> string list list" where
  "parseCSV s = csv FieldStart [] [] s"

text \<open>What the reader does with a finished field at a separator, and a finished line.\<close>

definition atDelim :: "string \<Rightarrow> string list \<Rightarrow> string \<Rightarrow> string list list" where
  "atDelim f row r =
     (case r of [] \<Rightarrow> [row @ [f]]
      | c # cs \<Rightarrow> if c = comma then csv FieldStart [] (row @ [f]) cs
                  else (row @ [f]) # csv FieldStart [] [] cs)"

definition delim :: "string \<Rightarrow> bool" where
  "delim r = (case r of [] \<Rightarrow> True | c # _ \<Rightarrow> c = comma \<or> c = newline)"

definition atLineEnd :: "string list \<Rightarrow> string \<Rightarrow> string list list" where
  "atLineEnd row r = (case r of [] \<Rightarrow> [row] | c # cs \<Rightarrow> row # csv FieldStart [] [] cs)"

text \<open>
  A cell that the reader gets back: one that the export wraps in double quotes, or one
  without a carriage return.
\<close>

definition readable :: "string \<Rightarrow> bool" where
  "readable str = (needsQuote str \<or> creturn \<notin> set str)"

section \<open>The component: configuration and state\<close>

text \<open>
  \<^verbatim>\<open>SHEETS_ENDPOINT\<close> and \<^verbatim>\<open>API_KEY\<close> are constants at the top of the file,
  both the empty string as shipped (local mode); the owner of the sheet writes the URL
  there. They are parameters of the model.
\<close>

record config =
  SHEETS_ENDPOINT :: string
  API_KEY :: string

text \<open>A toast, and the state of \<^verbatim>\<open>PrintInboxHub\<close> that the handlers below read or write.\<close>

record toast =
  tid :: string
  message :: string
  tone :: string

record hub =
  requests :: "request list"
  hydrated :: bool
  selected :: "request option"
  formOpenMobile :: bool
  loadingSubmit :: bool
  loadingRefresh :: bool
  formName :: string
  formDesc :: string
  formDue :: string
  formPriority :: string
  toasts :: "toast list"

definition initialHub :: hub where
  "initialHub =
     \<lparr>requests = [], hydrated = False, selected = None, formOpenMobile = False,
      loadingSubmit = False, loadingRefresh = False, formName = [], formDesc = [],
      formDue = [], formPriority = ''Normal'', toasts = []\<rparr>"

text \<open>
  \<^verbatim>\<open>pushToast\<close> appends a toast under a fresh \<^verbatim>\<open>uuid()\<close>, here the argument
  \<open>u\<close>; the timer that removes it three seconds later is \<^verbatim>\<open>removeToast\<close> as an
  event of its own.
\<close>

definition pushToast :: "string \<Rightarrow> string \<Rightarrow> string \<Rightarrow> hub \<Rightarrow> hub" where
  "pushToast u m t st = st\<lparr>toasts := toasts st @ [\<lparr>tid = u, message = m, tone = t\<rparr>]\<rparr>"

definition removeToast :: "string \<Rightarrow> hub \<Rightarrow> hub" where
  "removeToast u st = st\<lparr>toasts := filter (\<lambda>x. tid x \<noteq> u) (toasts st)\<rparr>"

section \<open>The network, JSON, and failures\<close>

text \<open>
  \<^verbatim>\<open>fetch\<close> either rejects (a network error) or resolves with a response. A
  request sent with \<^verbatim>\<open>mode: "no-cors"\<close> resolves with an opaque response: no
  status, no readable body. A readable response has a status and a body.
\<close>

datatype response = Opaque | Readable nat string

datatype fetched = NetworkError | Response response

text \<open>JSON values. Of a number the code only asks whether it is zero; it is an integer here.\<close>

datatype json = JNull | JBool bool | JNum int | JStr string | JArr "json list"
  | JObj "(string \<times> json) list"

text \<open>
  The handlers return nothing; what went wrong is shown as a toast. The model returns
  the failure as a value next to the new state, named as the specification names it.
\<close>

datatype failure = ValidationError string | RangeError | SyncPushError | SyncPullError
  | EndpointMissing

datatype submitted = Failed failure | Stored request | Posting request

section \<open>submitRequest and retrySync\<close>

text \<open>\<^verbatim>\<open>prev.map((r) => (r.id === id ? { ...r, synced: b } : r))\<close>\<close>

definition setSynced :: "string \<Rightarrow> bool \<Rightarrow> request list \<Rightarrow> request list" where
  "setSynced i b prev = map (\<lambda>r. if rid r = i then r\<lparr>synced := b\<rparr> else r) prev"

text \<open>
  \<^verbatim>\<open>submitRequest\<close> up to its \<^verbatim>\<open>await\<close>. \<open>u1\<close> and \<open>u2\<close> are the
  next two results of \<^verbatim>\<open>uuid()\<close>, \<open>nowIso\<close> is
  \<^verbatim>\<open>new Date().toISOString()\<close>, and \<open>toISOString\<close> is
  \<^verbatim>\<open>new Date(s).toISOString()\<close>, which throws a RangeError (\<open>None\<close>) on a
  string that is no date. The handler reads the form fields of the render it was created
  in; the model reads them in the state it is given. The result says how the call went
  on: it failed, it stored the request locally, or it is posting the request.
\<close>

definition submitRequest ::
  "config \<Rightarrow> string \<Rightarrow> string \<Rightarrow> string \<Rightarrow> (string \<Rightarrow> string option) \<Rightarrow> hub \<Rightarrow> submitted \<times> hub" where
  "submitRequest cfg u1 u2 nowIso toISOString st =
     (if trim (formName st) = [] then
        (Failed (ValidationError ''Name is required''),
         pushToast u1 ''Name is required'' ''error'' st)
      else if trim (formDesc st) = [] then
        (Failed (ValidationError ''Description is required''),
         pushToast u1 ''Description is required'' ''error'' st)
      else
        let st1 = st\<lparr>loadingSubmit := True\<rparr> in
        case (if formDue st \<noteq> [] then map_option Some (toISOString (formDue st)) else Some None) of
          None \<Rightarrow> (Failed RangeError, st1)
        | Some due \<Rightarrow>
            let newReq =
                  \<lparr>rid = u1, createdAt = nowIso, name = trim (formName st),
                   description = trim (formDesc st), dueDate = due,
                   priority = formPriority st, status = ''New'', devNotes = [],
                   pinned = False, synced = (SHEETS_ENDPOINT cfg = [])\<rparr>;
                st2 = st1\<lparr>requests := newReq # requests st1, formDesc := [], formDue := []\<rparr>;
                st3 = pushToast u2 ''Request added'' ''success'' st2
            in if SHEETS_ENDPOINT cfg = []
               then (Stored newReq, st3\<lparr>loadingSubmit := False, formOpenMobile := False\<rparr>)
               else (Posting newReq, st3))"

text \<open>
  The rest of \<^verbatim>\<open>submitRequest\<close>, once the \<^verbatim>\<open>fetch\<close> has settled: the
  \<^verbatim>\<open>try\<close> branch when it resolved (the response is not looked at), the
  \<^verbatim>\<open>catch\<close> branch when it rejected, then \<^verbatim>\<open>finally\<close>. The updates are
  functional (\<^verbatim>\<open>setRequests((prev) => ...)\<close>), so they act on the state of that
  moment.
\<close>

definition submitSettled :: "string \<Rightarrow> string \<Rightarrow> fetched \<Rightarrow> hub \<Rightarrow> failure option \<times> hub" where
  "submitSettled i u outcome st =
     (case outcome of
        Response _ \<Rightarrow>
          (None, st\<lparr>requests := setSynced i True (requests st),
                    loadingSubmit := False, formOpenMobile := False\<rparr>)
      | NetworkError \<Rightarrow>
          (Some SyncPushError,
           (pushToast u ''Failed to sync. You can retry.'' ''error''
              (st\<lparr>requests := setSynced i False (requests st)\<rparr>))
            \<lparr>loadingSubmit := False, formOpenMobile := False\<rparr>))"

text \<open>
  \<^verbatim>\<open>retrySync\<close> changes nothing before its \<^verbatim>\<open>await\<close>; its \<^verbatim>\<open>catch\<close>
  only shows a toast.
\<close>

definition retrySync :: "config \<Rightarrow> request \<Rightarrow> string \<Rightarrow> fetched \<Rightarrow> hub \<Rightarrow> failure option \<times> hub" where
  "retrySync cfg req u outcome st =
     (if SHEETS_ENDPOINT cfg = [] then (None, st)
      else case outcome of
        Response _ \<Rightarrow>
          (None, pushToast u ''Synced'' ''success''
                   (st\<lparr>requests := setSynced (rid req) True (requests st)\<rparr>))
      | NetworkError \<Rightarrow> (Some SyncPushError, pushToast u ''Sync failed'' ''error'' st))"

section \<open>refreshFromSheet\<close>

text \<open>
  \<^verbatim>\<open>data?.rows\<close>: the property of an object (the last of duplicate keys, as
  \<^verbatim>\<open>JSON.parse\<close> keeps it), \<^verbatim>\<open>undefined\<close> on \<^verbatim>\<open>null\<close>, on a primitive
  and on an array. Then JavaScript's truthiness and \<^verbatim>\<open>Array.isArray\<close>.
\<close>

fun lookupKey :: "string \<Rightarrow> (string \<times> json) list \<Rightarrow> json option" where
  "lookupKey k [] = None"
| "lookupKey k ((k', v) # kvs) =
     (case lookupKey k kvs of Some w \<Rightarrow> Some w | None \<Rightarrow> if k' = k then Some v else None)"

fun getRows :: "json \<Rightarrow> json option" where
  "getRows (JObj kvs) = lookupKey ''rows'' kvs"
| "getRows _ = None"

fun truthyJson :: "json option \<Rightarrow> bool" where
  "truthyJson None = False"
| "truthyJson (Some JNull) = False"
| "truthyJson (Some (JBool b)) = b"
| "truthyJson (Some (JNum n)) = (n \<noteq> 0)"
| "truthyJson (Some (JStr s)) = (s \<noteq> [])"
| "truthyJson (Some (JArr _)) = True"
| "truthyJson (Some (JObj _)) = True"

fun isArray :: "json option \<Rightarrow> bool" where
  "isArray (Some (JArr _)) = True"
| "isArray _ = False"

fun elements :: "json option \<Rightarrow> json list" where
  "elements (Some (JArr xs)) = xs"
| "elements _ = []"

text \<open>
  \<^verbatim>\<open>res.json()\<close> rejects on an opaque response and on a body that is not JSON;
  \<^verbatim>\<open>JSON.parse\<close> is the parameter \<open>parseJson\<close>.
\<close>

fun resJson :: "(string \<Rightarrow> json option) \<Rightarrow> response \<Rightarrow> json option" where
  "resJson parseJson Opaque = None"
| "resJson parseJson (Readable _ body) = parseJson body"

text \<open>
  \<^verbatim>\<open>refreshFromSheet\<close> up to its \<^verbatim>\<open>await\<close>, and once the response is
  there. A row of the sheet is any JSON value; \<open>asRequest\<close> is the request the rest of
  the code reads in it.
\<close>

definition refreshFromSheet :: "config \<Rightarrow> string \<Rightarrow> hub \<Rightarrow> failure option \<times> hub" where
  "refreshFromSheet cfg u st =
     (if SHEETS_ENDPOINT cfg = []
      then (Some EndpointMissing, pushToast u ''Add SHEETS_ENDPOINT to enable refresh'' ''error'' st)
      else (None, st\<lparr>loadingRefresh := True\<rparr>))"

definition refreshSettled ::
  "(string \<Rightarrow> json option) \<Rightarrow> (json \<Rightarrow> request) \<Rightarrow> string \<Rightarrow> fetched \<Rightarrow> hub \<Rightarrow> failure option \<times> hub" where
  "refreshSettled parseJson asRequest u outcome st =
     (let failed = (Some SyncPullError,
                    (pushToast u ''Refresh failed'' ''error'' st)\<lparr>loadingRefresh := False\<rparr>)
      in case outcome of
        NetworkError \<Rightarrow> failed
      | Response res \<Rightarrow>
          (case resJson parseJson res of
             None \<Rightarrow> failed
           | Some data \<Rightarrow>
               if \<not> truthyJson (getRows data) \<or> \<not> isArray (getRows data) then failed
               else (None,
                     (pushToast u ''Inbox refreshed'' ''success''
                        (st\<lparr>requests :=
                              map (\<lambda>r. (asRequest r)\<lparr>synced := True\<rparr>) (elements (getRows data))\<rparr>))
                      \<lparr>loadingRefresh := False\<rparr>)))"

section \<open>updateRequest\<close>

text \<open>
  \<^verbatim>\<open>changes\<close> is an object with some of the keys of a request;
  \<^verbatim>\<open>{ ...r, ...changes }\<close> takes the keys that are there from \<^verbatim>\<open>changes\<close>.
\<close>

record changes =
  c_rid :: "string option"
  c_createdAt :: "string option"
  c_name :: "string option"
  c_description :: "string option"
  c_dueDate :: "string option option"
  c_priority :: "string option"
  c_status :: "string option"
  c_devNotes :: "string option"
  c_pinned :: "bool option"
  c_synced :: "bool option"

definition merge :: "request \<Rightarrow> changes \<Rightarrow> request" where
  "merge r c =
     \<lparr>rid = (case c_rid c of None \<Rightarrow> rid r | Some v \<Rightarrow> v),
      createdAt = (case c_createdAt c of None \<Rightarrow> createdAt r | Some v \<Rightarrow> v),
      name = (case c_name c of None \<Rightarrow> name r | Some v \<Rightarrow> v),
      description = (case c_description c of None \<Rightarrow> description r | Some v \<Rightarrow> v),
      dueDate = (case c_dueDate c of None \<Rightarrow> dueDate r | Some v \<Rightarrow> v),
      priority = (case c_priority c of None \<Rightarrow> priority r | Some v \<Rightarrow> v),
      status = (case c_status c of None \<Rightarrow> status r | Some v \<Rightarrow> v),
      devNotes = (case c_devNotes c of None \<Rightarrow> devNotes r | Some v \<Rightarrow> v),
      pinned = (case c_pinned c of None \<Rightarrow> pinned r | Some v \<Rightarrow> v),
      synced = (case c_synced c of None \<Rightarrow> synced r | Some v \<Rightarrow> v)\<rparr>"

definition updateRequest :: "string \<Rightarrow> changes \<Rightarrow> hub \<Rightarrow> hub" where
  "updateRequest i c st =
     st\<lparr>requests := map (\<lambda>r. if rid r = i then merge r c else r) (requests st),
        selected := (case selected st of
                       None \<Rightarrow> None
                     | Some prev \<Rightarrow> if rid prev = i then Some (merge prev c) else Some prev)\<rparr>"


section \<open>Loading and persisting\<close>

text \<open>
  The two effects of the component. The first reads \<^verbatim>\<open>localStorage\<close> (\<open>None\<close>
  when the key is not there), keeps the parsed value when it is an array, and sets
  \<^verbatim>\<open>hydrated\<close>; a parse error is caught and logged. The second writes the requests
  of the render it belongs to, unless that render's \<^verbatim>\<open>hydrated\<close> is false.
  \<^verbatim>\<open>JSON.stringify\<close> is the parameter \<open>stringify\<close>.
\<close>

definition loadEffect ::
  "(string \<Rightarrow> json option) \<Rightarrow> (json \<Rightarrow> request) \<Rightarrow> string option \<Rightarrow> hub \<Rightarrow> hub" where
  "loadEffect parseJson asRequest saved st =
     (let st1 =
        (case saved of
           None \<Rightarrow> st
         | Some text \<Rightarrow>
             if text = [] then st
             else (case parseJson text of
                     None \<Rightarrow> st
                   | Some parsed \<Rightarrow>
                       if isArray (Some parsed)
                       then st\<lparr>requests := map asRequest (elements (Some parsed))\<rparr>
                       else st))
      in st1\<lparr>hydrated := True\<rparr>)"

definition persistEffect :: "(request list \<Rightarrow> string) \<Rightarrow> hub \<Rightarrow> string option \<Rightarrow> string option" where
  "persistEffect stringify view saved =
     (if \<not> hydrated view then saved else Some (stringify (requests view)))"

text \<open>
  From the spec: what \<^verbatim>\<open>load()\<close> gives, "sequence of Request | absent", with the
  empty collection when nothing is stored, when the stored text does not parse, and when
  it parses to something that is not an array.
\<close>

fun storedCollection ::
  "(string \<Rightarrow> json option) \<Rightarrow> (json \<Rightarrow> request) \<Rightarrow> string option \<Rightarrow> request list" where
  "storedCollection parseJson asRequest None = []"
| "storedCollection parseJson asRequest (Some text) =
     (if text = [] then []
      else (case parseJson text of
              Some (JArr xs) \<Rightarrow> map asRequest xs
            | _ \<Rightarrow> []))"

text \<open>
  What React does with the component, as a transition system. A world is the state as
  the updates have left it, the state of the last render (which the effects and the
  handlers close over), the stored string, and the trace so far: the loads, the saves
  with the collection they write, and the handlers that ran. The system starts with the
  initial state and the string \<open>saved0\<close> that an earlier visit has left in the
  storage. React runs the load effect after the first render (twice under
  \<^verbatim>\<open>StrictMode\<close>) and the persist effect after each render in which the requests
  or the flag have changed; the system below lets either effect run at any moment and
  any number of times, which covers every schedule of React. A handler is any function
  of the rendered and the current state that leaves \<^verbatim>\<open>hydrated\<close> alone:
  \<^verbatim>\<open>setHydrated\<close> is called in the load effect only.
\<close>

datatype event = Loaded | Saved "request list" | Handled

record world =
  current :: hub
  rendered :: hub
  storage :: "string option"
  trace :: "event list"

inductive reach ::
  "(string \<Rightarrow> json option) \<Rightarrow> (json \<Rightarrow> request) \<Rightarrow> (request list \<Rightarrow> string) \<Rightarrow>
   string option \<Rightarrow> world \<Rightarrow> bool"
  for parseJson asRequest stringify saved0 where
  mount: "reach parseJson asRequest stringify saved0
            \<lparr>current = initialHub, rendered = initialHub, storage = saved0, trace = []\<rparr>"
| render: "reach parseJson asRequest stringify saved0 w \<Longrightarrow>
           reach parseJson asRequest stringify saved0 (w\<lparr>rendered := current w\<rparr>)"
| load: "reach parseJson asRequest stringify saved0 w \<Longrightarrow>
         reach parseJson asRequest stringify saved0
           (w\<lparr>current := loadEffect parseJson asRequest (storage w) (current w),
              trace := trace w @ [Loaded]\<rparr>)"
| persist: "reach parseJson asRequest stringify saved0 w \<Longrightarrow>
            reach parseJson asRequest stringify saved0
              (w\<lparr>storage := persistEffect stringify (rendered w) (storage w),
                 trace := trace w @ (if hydrated (rendered w) then [Saved (requests (rendered w))] else [])\<rparr>)"
| handler: "reach parseJson asRequest stringify saved0 w \<Longrightarrow>
            (\<And>v s. hydrated (h v s) = hydrated s) \<Longrightarrow>
            reach parseJson asRequest stringify saved0
              (w\<lparr>current := h (rendered w) (current w), trace := trace w @ [Handled]\<rparr>)"

text \<open>Every save in a trace has a load before it.\<close>

definition loadFirst :: "event list \<Rightarrow> bool" where
  "loadFirst es = (\<forall>pre c post. es = pre @ Saved c # post \<longrightarrow> Loaded \<in> set pre)"

text \<open>
  The collection that the first save of a trace writes, when nothing but loads came
  before that save: no handler has changed the state between the load and the save.
\<close>

fun firstSaved :: "event list \<Rightarrow> request list option" where
  "firstSaved [] = None"
| "firstSaved (Loaded # es) = firstSaved es"
| "firstSaved (Saved c # es) = Some c"
| "firstSaved (Handled # es) = None"

text \<open>A trace of loads only.\<close>

definition quiet :: "event list \<Rightarrow> bool" where
  "quiet es = (\<forall>e \<in> set es. e = Loaded)"


section \<open>Sample data\<close>

text \<open>Concrete requests and a concrete date parser, for evaluating the model.\<close>

definition sample :: "string \<Rightarrow> string \<Rightarrow> string option \<Rightarrow> bool \<Rightarrow> request" where
  "sample i created due pin =
     \<lparr>rid = i, createdAt = created, name = ''Alice'', description = ''Bracket'',
      dueDate = due, priority = ''High'', status = ''New'', devNotes = [],
      pinned = pin, synced = True\<rparr>"

definition sampleParse :: "string \<Rightarrow> int option" where
  "sampleParse s =
     (if s = ''2024-05-01'' then Some 1714521600000
      else if s = ''2024-05-02'' then Some 1714608000000
      else if s = ''2024-05-03'' then Some 1714694400000
      else None)"



definition allFilter :: filterSpec where
  "allFilter = \<lparr>search = [], statusFilter = ''All'', priorityFilter = ''All''\<rparr>"

definition sampleConfig :: config where
  "sampleConfig = \<lparr>SHEETS_ENDPOINT = ''https://sheet.example/exec'', API_KEY = []\<rparr>"

definition sampleHub :: hub where
  "sampleHub = initialHub\<lparr>requests := [(sample ''a'' [] None False)\<lparr>synced := False\<rparr>],
     hydrated := True, formName := ''  '', formDesc := ''Bracket''\<rparr>"

section \<open>Orderings of a sorted view\<close>

text \<open>No unpinned request stands before a pinned one.\<close>

definition pinnedFirst :: "request list \<Rightarrow> bool" where
  "pinnedFirst rs = sorted_wrt (\<lambda>a b. pinned b \<longrightarrow> pinned a) rs"

text \<open>
  The key of the \<^verbatim>\<open>due\<close> comparator, and the time of a due date that is present
  and parses. \<open>validDue\<close> says that a due date that is present parses.
\<close>

definition dueKey :: "(string \<Rightarrow> int option) \<Rightarrow> request \<Rightarrow> number" where
  "dueKey parse r = (if truthy (dueDate r) then getTime parse (the (dueDate r)) else PInf)"

definition dueTime :: "(string \<Rightarrow> int option) \<Rightarrow> request \<Rightarrow> int option" where
  "dueTime parse r = (if truthy (dueDate r) then parse (the (dueDate r)) else None)"

definition validDue :: "(string \<Rightarrow> int option) \<Rightarrow> request \<Rightarrow> bool" where
  "validDue parse r = (truthy (dueDate r) \<longrightarrow> parse (the (dueDate r)) \<noteq> None)"

text \<open>
  Within a partition (pinned, or unpinned), no request without a due date stands before
  one with a due date; and the due dates that parse ascend.
\<close>

definition absentLast :: "request list \<Rightarrow> bool" where
  "absentLast rs =
     sorted_wrt (\<lambda>a b. pinned a = pinned b \<and> truthy (dueDate b) \<longrightarrow> truthy (dueDate a)) rs"

definition dueAscending :: "(string \<Rightarrow> int option) \<Rightarrow> request list \<Rightarrow> bool" where
  "dueAscending parse rs =
     sorted_wrt (\<lambda>a b. pinned a = pinned b \<longrightarrow>
        (case (dueTime parse a, dueTime parse b) of (Some s, Some t) \<Rightarrow> s \<le> t | _ \<Rightarrow> True)) rs"

text \<open>The order the \<^verbatim>\<open>due\<close> comparator induces on requests whose keys are numbers.\<close>

fun keyLe :: "number \<Rightarrow> number \<Rightarrow> bool" where
  "keyLe (Fin a) (Fin b) = (a \<le> b)"
| "keyLe (Fin _) PInf = True"
| "keyLe PInf PInf = True"
| "keyLe _ _ = False"

definition dueRel :: "(string \<Rightarrow> int option) \<Rightarrow> request \<Rightarrow> request \<Rightarrow> bool" where
  "dueRel parse a b =
     ((pinned a \<and> \<not> pinned b) \<or> (pinned a = pinned b \<and> keyLe (dueKey parse a) (dueKey parse b)))"

section \<open>Pinned requests come first\<close>

lemma set_insert_by: "set (insert_by cmp x ys) = insert x (set ys)"
  by (induction ys) auto

lemma set_sort_by: "set (sort_by cmp xs) = set xs"
  by (induction xs) (auto simp: set_insert_by)

text \<open>The sort rearranges the list: it loses and adds nothing.\<close>

lemma mset_insert_by: "mset (insert_by cmp x ys) = add_mset x (mset ys)"
  by (induction ys) simp_all

lemma mset_sort_by: "mset (sort_by cmp xs) = mset xs"
  by (induction xs) (simp_all add: mset_insert_by)

lemma mset_sortRequests: "mset (sortRequests parse reqs sortKey) = mset reqs"
  by (simp add: sortRequests_def mset_sort_by)

lemma compare_pinned_first:
  "pinned a \<Longrightarrow> \<not> pinned b \<Longrightarrow> compareRequests parse sortKey a b = Fin (- 1)"
  by (simp add: compareRequests_def)

lemma compare_pinned_second:
  "pinned b \<Longrightarrow> \<not> pinned a \<Longrightarrow> compareRequests parse sortKey a b = Fin 1"
  by (simp add: compareRequests_def)

lemma pinnedFirst_insert:
  "pinnedFirst ys \<Longrightarrow> pinnedFirst (insert_by (compareRequests parse sortKey) x ys)"
proof (induction ys)
  case Nil
  then show ?case by (simp add: pinnedFirst_def)
next
  case (Cons y ys)
  show ?case
  proof (cases "before_eq (compareRequests parse sortKey x y)")
    case True
    have "pinned y \<longrightarrow> pinned x"
    proof (rule ccontr)
      assume "\<not> (pinned y \<longrightarrow> pinned x)"
      then have "compareRequests parse sortKey x y = Fin 1"
        by (simp add: compare_pinned_second)
      with True show False by simp
    qed
    with Cons.prems True show ?thesis
      by (auto simp: pinnedFirst_def)
  next
    case False
    have "pinned x \<longrightarrow> pinned y"
    proof (rule ccontr)
      assume "\<not> (pinned x \<longrightarrow> pinned y)"
      then have "compareRequests parse sortKey x y = Fin (- 1)"
        by (simp add: compare_pinned_first)
      with False show False by simp
    qed
    with Cons False show ?thesis
      by (auto simp: pinnedFirst_def set_insert_by)
  qed
qed

lemma pinnedFirst_sort_by: "pinnedFirst (sort_by (compareRequests parse sortKey) rs)"
  by (induction rs) (simp_all add: pinnedFirst_def pinnedFirst_insert [unfolded pinnedFirst_def])

text \<open>
  The same holds of any arrangement that the comparator accepts (no pair in it that the
  comparator wants swapped), whichever algorithm produced it.
\<close>

lemma pinnedFirst_accepted:
  "sorted_wrt (\<lambda>a b. before_eq (compareRequests parse sortKey a b)) rs \<Longrightarrow> pinnedFirst rs"
  unfolding pinnedFirst_def
proof (erule sorted_wrt_mono_rel [rotated])
  fix a b
  assume c: "before_eq (compareRequests parse sortKey a b)"
  show "pinned b \<longrightarrow> pinned a"
  proof (rule ccontr)
    assume "\<not> (pinned b \<longrightarrow> pinned a)"
    then have "compareRequests parse sortKey a b = Fin 1"
      by (simp add: compare_pinned_second)
    with c show False by simp
  qed
qed


text \<open>
  Claim C1. Whatever the collection, the filter and the sort key (the four keys of the
  selector, or any other string, which sorts as \<^verbatim>\<open>newest\<close>), no unpinned request
  stands before a pinned one in the output of the query, nor in the output of
  \<^verbatim>\<open>sortRequests\<close> on any list; and the comparator decides a pinned/unpinned pair
  before it looks at the sort key.
\<close>

theorem query_pinned_first:
  "pinnedFirst (filtered parse collection f sortKey) \<and>
   pinnedFirst (sortRequests parse reqs sortKey) \<and>
   (pinned a \<and> \<not> pinned b \<longrightarrow>
      compareRequests parse sortKey a b = Fin (- 1) \<and>
      compareRequests parse sortKey b a = Fin 1)"
  by (simp add: filtered_def sortRequests_def pinnedFirst_sort_by
      compare_pinned_first compare_pinned_second)

theorem query_pinned_first_witness:
  "filtered sampleParse
     [sample ''a'' ''2024-05-03'' None False, sample ''b'' ''2024-05-01'' None True,
      sample ''c'' ''2024-05-02'' None False]
     allFilter ''newest''
   = [sample ''b'' ''2024-05-01'' None True, sample ''a'' ''2024-05-03'' None False,
      sample ''c'' ''2024-05-02'' None False] \<and>
   pinnedFirst (filtered sampleParse
     [sample ''a'' ''2024-05-03'' None False, sample ''b'' ''2024-05-01'' None True,
      sample ''c'' ''2024-05-02'' None False]
     allFilter ''newest'') \<and>
   compareRequests sampleParse ''newest'' (sample ''b'' ''2024-05-01'' None True)
     (sample ''a'' ''2024-05-03'' None False) = Fin (- 1)"
  using query_pinned_first [of sampleParse
     "[sample ''a'' ''2024-05-03'' None False, sample ''b'' ''2024-05-01'' None True,
       sample ''c'' ''2024-05-02'' None False]" allFilter "''newest''" "[]"
     "sample ''b'' ''2024-05-01'' None True" "sample ''a'' ''2024-05-03'' None False"]
  by (simp add: filtered_def sortRequests_def matches_def allFilter_def trim_def
      toLowerCase_def compareRequests_def sample_def sampleParse_def getTime_def)

section \<open>Sorting by due date\<close>

lemma sorted_insert_by:
  assumes tr: "\<And>a b c. a \<in> A \<Longrightarrow> b \<in> A \<Longrightarrow> c \<in> A \<Longrightarrow> R a b \<Longrightarrow> R b c \<Longrightarrow> R a c"
    and le: "\<And>a b. a \<in> A \<Longrightarrow> b \<in> A \<Longrightarrow> before_eq (cmp a b) \<Longrightarrow> R a b"
    and gt: "\<And>a b. a \<in> A \<Longrightarrow> b \<in> A \<Longrightarrow> \<not> before_eq (cmp a b) \<Longrightarrow> R b a"
  shows "insert x (set ys) \<subseteq> A \<Longrightarrow> sorted_wrt R ys \<Longrightarrow> sorted_wrt R (insert_by cmp x ys)"
proof (induction ys)
  case Nil
  show ?case by simp
next
  case (Cons y ys)
  from Cons.prems(1) have xA: "x \<in> A" and yA: "y \<in> A" and ysA: "set ys \<subseteq> A"
    by simp_all
  from Cons.prems(2) have y_ys: "\<forall>z \<in> set ys. R y z" and s_ys: "sorted_wrt R ys"
    by simp_all
  show ?case
  proof (cases "before_eq (cmp x y)")
    case True
    have xy: "R x y" using xA yA True by (rule le)
    have "\<forall>z \<in> set ys. R x z"
    proof
      fix z assume z: "z \<in> set ys"
      then have zA: "z \<in> A" using ysA by blast
      from z y_ys have "R y z" by blast
      with xy show "R x z" using xA yA zA by (blast intro: tr)
    qed
    with xy True y_ys s_ys show ?thesis by simp
  next
    case False
    have yx: "R y x" using xA yA False by (rule gt)
    have "insert x (set ys) \<subseteq> A" using xA ysA by simp
    then have "sorted_wrt R (insert_by cmp x ys)"
      using s_ys by (rule Cons.IH)
    with yx False y_ys show ?thesis
      by (simp add: set_insert_by)
  qed
qed

lemma sorted_sort_by:
  assumes tr: "\<And>a b c. a \<in> A \<Longrightarrow> b \<in> A \<Longrightarrow> c \<in> A \<Longrightarrow> R a b \<Longrightarrow> R b c \<Longrightarrow> R a c"
    and le: "\<And>a b. a \<in> A \<Longrightarrow> b \<in> A \<Longrightarrow> before_eq (cmp a b) \<Longrightarrow> R a b"
    and gt: "\<And>a b. a \<in> A \<Longrightarrow> b \<in> A \<Longrightarrow> \<not> before_eq (cmp a b) \<Longrightarrow> R b a"
  shows "set xs \<subseteq> A \<Longrightarrow> sorted_wrt R (sort_by cmp xs)"
proof (induction xs)
  case Nil
  show ?case by simp
next
  case (Cons x xs)
  from Cons.prems have "set xs \<subseteq> A" by simp
  then have s: "sorted_wrt R (sort_by cmp xs)" by (rule Cons.IH)
  have i: "insert x (set (sort_by cmp xs)) \<subseteq> A"
    using Cons.prems by (simp add: set_sort_by)
  have "sorted_wrt R (insert_by cmp x (sort_by cmp xs))"
    using tr le gt i s by (rule sorted_insert_by)
  then show ?case by simp
qed

lemma dueKey_valid: "validDue parse r \<Longrightarrow> dueKey parse r = PInf \<or> (\<exists>t. dueKey parse r = Fin t)"
  by (auto simp: validDue_def dueKey_def getTime_def split: option.splits)

lemma compare_due:
  "compareRequests parse ''due'' a b =
     (if pinned a \<and> \<not> pinned b then Fin (- 1)
      else if pinned b \<and> \<not> pinned a then Fin 1
      else minus_num (dueKey parse a) (dueKey parse b))"
  by (simp add: compareRequests_def dueKey_def Let_def)

lemma dueRel_trans:
  "validDue parse a \<Longrightarrow> validDue parse b \<Longrightarrow> validDue parse c \<Longrightarrow>
   dueRel parse a b \<Longrightarrow> dueRel parse b c \<Longrightarrow> dueRel parse a c"
  using dueKey_valid [of parse a] dueKey_valid [of parse b] dueKey_valid [of parse c]
  by (auto simp: dueRel_def)

lemma dueRel_le:
  "validDue parse a \<Longrightarrow> validDue parse b \<Longrightarrow>
   before_eq (compareRequests parse ''due'' a b) \<Longrightarrow> dueRel parse a b"
  using dueKey_valid [of parse a] dueKey_valid [of parse b]
  by (auto simp: dueRel_def compare_due split: if_splits)

lemma dueRel_gt:
  "validDue parse a \<Longrightarrow> validDue parse b \<Longrightarrow>
   \<not> before_eq (compareRequests parse ''due'' a b) \<Longrightarrow> dueRel parse b a"
  using dueKey_valid [of parse a] dueKey_valid [of parse b]
  by (auto simp: dueRel_def compare_due split: if_splits)

lemma dueRel_sorted:
  assumes "\<forall>r \<in> set reqs. validDue parse r"
  shows "sorted_wrt (dueRel parse) (sortRequests parse reqs ''due'')"
  unfolding sortRequests_def
proof (rule sorted_sort_by [where A = "{r. validDue parse r}"])
  show "set reqs \<subseteq> {r. validDue parse r}" using assms by blast
qed (simp_all add: dueRel_le dueRel_gt, blast intro: dueRel_trans)

lemma dueKey_cases:
  "dueKey parse r = (case dueTime parse r of Some t \<Rightarrow> Fin t
     | None \<Rightarrow> if truthy (dueDate r) then NaN else PInf)"
  by (simp add: dueKey_def dueTime_def getTime_def split: option.splits)

lemma keyLe_Fin: "keyLe k (Fin t) \<Longrightarrow> \<exists>s. k = Fin s \<and> s \<le> t"
  by (cases k) simp_all

lemma dueRel_absentLast:
  assumes "dueRel parse a b" "pinned a = pinned b" "truthy (dueDate b)" "validDue parse b"
  shows "truthy (dueDate a)"
proof -
  from assms(3,4) obtain t where t: "dueKey parse b = Fin t"
    by (auto simp: validDue_def dueKey_def getTime_def)
  from assms(1,2) have "keyLe (dueKey parse a) (dueKey parse b)"
    by (auto simp: dueRel_def)
  with t obtain s where "dueKey parse a = Fin s"
    using keyLe_Fin by metis
  then show ?thesis
    by (cases "truthy (dueDate a)") (simp_all add: dueKey_def)
qed

lemma dueRel_ascending:
  assumes "dueRel parse a b" "pinned a = pinned b"
  shows "case (dueTime parse a, dueTime parse b) of (Some s, Some t) \<Rightarrow> s \<le> t | _ \<Rightarrow> True"
proof (cases "dueTime parse a")
  case None
  then show ?thesis by simp
next
  case sa: (Some s)
  show ?thesis
  proof (cases "dueTime parse b")
    case None
    with sa show ?thesis by simp
  next
    case (Some t)
    from assms have "keyLe (dueKey parse a) (dueKey parse b)"
      by (auto simp: dueRel_def)
    with sa Some show ?thesis by (simp add: dueKey_cases)
  qed
qed

text \<open>
  When every due date that is present parses as a date, the view sorted by
  \<^verbatim>\<open>due\<close> has, within the pinned and within the unpinned requests, the due dates
  in ascending order and every request without a due date after every request with one.
\<close>

lemma sort_due_ascending:
  assumes "\<forall>r \<in> set reqs. validDue parse r"
  shows "dueAscending parse (sortRequests parse reqs ''due'') \<and>
         absentLast (sortRequests parse reqs ''due'')"
proof -
  let ?out = "sortRequests parse reqs ''due''"
  have srt: "sorted_wrt (dueRel parse) ?out"
    using assms by (rule dueRel_sorted)
  have mem: "\<And>r. r \<in> set ?out \<Longrightarrow> validDue parse r"
    using assms by (simp add: sortRequests_def set_sort_by)
  have "dueAscending parse ?out"
    unfolding dueAscending_def
  proof (rule sorted_wrt_mono_rel [OF _ srt])
    fix a b
    assume "dueRel parse a b"
    then show "pinned a = pinned b \<longrightarrow>
      (case (dueTime parse a, dueTime parse b) of (Some s, Some t) \<Rightarrow> s \<le> t | _ \<Rightarrow> True)"
      using dueRel_ascending [of parse a b] by blast
  qed
  moreover have "absentLast ?out"
    unfolding absentLast_def
  proof (rule sorted_wrt_mono_rel [OF _ srt])
    fix a b
    assume "b \<in> set ?out" and "dueRel parse a b"
    then show "pinned a = pinned b \<and> truthy (dueDate b) \<longrightarrow> truthy (dueDate a)"
      using dueRel_absentLast [of parse a b] mem [of b] by blast
  qed
  ultimately show ?thesis by simp
qed

lemma sort_due_ascending_example:
  "list_all (validDue sampleParse)
     [sample ''a'' [] None False, sample ''b'' [] (Some ''2024-05-03'') False,
      sample ''c'' [] (Some ''2024-05-01'') False, sample ''d'' [] None True] \<and>
   sortRequests sampleParse
     [sample ''a'' [] None False, sample ''b'' [] (Some ''2024-05-03'') False,
      sample ''c'' [] (Some ''2024-05-01'') False, sample ''d'' [] None True] ''due''
   = [sample ''d'' [] None True, sample ''c'' [] (Some ''2024-05-01'') False,
      sample ''b'' [] (Some ''2024-05-03'') False, sample ''a'' [] None False] \<and>
   dueAscending sampleParse (sortRequests sampleParse
     [sample ''a'' [] None False, sample ''b'' [] (Some ''2024-05-03'') False,
      sample ''c'' [] (Some ''2024-05-01'') False, sample ''d'' [] None True] ''due'') \<and>
   absentLast (sortRequests sampleParse
     [sample ''a'' [] None False, sample ''b'' [] (Some ''2024-05-03'') False,
      sample ''c'' [] (Some ''2024-05-01'') False, sample ''d'' [] None True] ''due'')"
proof -
  have v: "\<forall>r \<in> set [sample ''a'' [] None False, sample ''b'' [] (Some ''2024-05-03'') False,
                 sample ''c'' [] (Some ''2024-05-01'') False, sample ''d'' [] None True].
      validDue sampleParse r"
    by (simp add: validDue_def sample_def sampleParse_def)
  have e: "sortRequests sampleParse
     [sample ''a'' [] None False, sample ''b'' [] (Some ''2024-05-03'') False,
      sample ''c'' [] (Some ''2024-05-01'') False, sample ''d'' [] None True] ''due''
   = [sample ''d'' [] None True, sample ''c'' [] (Some ''2024-05-01'') False,
      sample ''b'' [] (Some ''2024-05-03'') False, sample ''a'' [] None False]"
    by (simp add: sortRequests_def compareRequests_def sample_def sampleParse_def getTime_def)
  from v e sort_due_ascending [OF v] show ?thesis by (simp add: list_all_iff)
qed

text \<open>
  Claim C5. Sorted by \<^verbatim>\<open>due\<close>, the requests of each partition ascend by due
  date and those without a due date come last. The code breaks this on a due date that
  is present and does not parse: its time is \<^verbatim>\<open>NaN\<close>, every difference with it
  is \<^verbatim>\<open>NaN\<close>, and the sort reads that as equal. A request without a due date then
  stays in front of one with a due date, and two due dates that do parse stay in
  descending order around one that does not. \<^verbatim>\<open>triageBuckets\<close> and
  \<^verbatim>\<open>formatDate\<close> test \<^verbatim>\<open>Number.isNaN(d.getTime())\<close>; the comparator does not.
\<close>

theorem sort_due_unparsed:
  "sortRequests sampleParse
     [sample ''a'' [] None False, sample ''b'' [] (Some ''soon'') False] ''due''
   = [sample ''a'' [] None False, sample ''b'' [] (Some ''soon'') False] \<and>
   sortRequests sampleParse
     [sample ''b'' [] (Some ''2024-05-03'') False, sample ''x'' [] (Some ''soon'') False,
      sample ''c'' [] (Some ''2024-05-01'') False] ''due''
   = [sample ''b'' [] (Some ''2024-05-03'') False, sample ''x'' [] (Some ''soon'') False,
      sample ''c'' [] (Some ''2024-05-01'') False]"
  by (simp add: sortRequests_def compareRequests_def sample_def sampleParse_def getTime_def)

text \<open>Neither output is in the order of the claim.\<close>

lemma sort_due_unparsed_order:
  "\<not> absentLast [sample ''a'' [] None False, sample ''b'' [] (Some ''soon'') False]"
  "\<not> dueAscending sampleParse
     [sample ''b'' [] (Some ''2024-05-03'') False, sample ''x'' [] (Some ''soon'') False,
      sample ''c'' [] (Some ''2024-05-01'') False]"
  by (simp_all add: absentLast_def dueAscending_def dueTime_def sample_def sampleParse_def)

section \<open>The calendar\<close>

lemma yearDown_le: "DayFromYear (yearDown d y) \<le> d"
proof (induction d y rule: yearDown.induct)
  case (1 d y)
  show ?case
  proof (cases "d < DayFromYear y")
    case True
    then have "yearDown d y = yearDown d (y - 1)"
      by (subst yearDown.simps) simp
    with 1 True show ?thesis by simp
  next
    case False
    then have "yearDown d y = y"
      by (subst yearDown.simps) simp
    with False show ?thesis by simp
  qed
qed

lemma yearUp_le: "DayFromYear y \<le> d \<Longrightarrow> DayFromYear (yearUp d y) \<le> d"
proof (induction d y rule: yearUp.induct)
  case (1 d y)
  show ?case
  proof (cases "DayFromYear (y + 1) \<le> d")
    case True
    then have "yearUp d y = yearUp d (y + 1)"
      by (subst yearUp.simps) simp
    with 1 True show ?thesis by simp
  next
    case False
    then have "yearUp d y = y"
      by (subst yearUp.simps) simp
    with 1 show ?thesis by simp
  qed
qed

lemma yearUp_gt: "d < DayFromYear (yearUp d y + 1)"
proof (induction d y rule: yearUp.induct)
  case (1 d y)
  show ?case
  proof (cases "DayFromYear (y + 1) \<le> d")
    case True
    then have "yearUp d y = yearUp d (y + 1)"
      by (subst yearUp.simps) simp
    with 1 True show ?thesis by simp
  next
    case False
    then have "yearUp d y = y"
      by (subst yearUp.simps) simp
    with False show ?thesis by simp
  qed
qed

lemma YearFromTime_bounds:
  "DayFromYear (YearFromTime t) \<le> Day t \<and> Day t < DayFromYear (YearFromTime t + 1)"
  by (simp add: YearFromTime_def yearUp_le yearDown_le yearUp_gt)

lemma DayWithinYear_range: "0 \<le> DayWithinYear t \<and> DayWithinYear t < DaysInYear (YearFromTime t)"
  using YearFromTime_bounds [of t] by (simp add: DayWithinYear_def DayFromYear_Suc)




section \<open>Local midnight\<close>











section \<open>Triage\<close>



text \<open>
  Claim C10. A request whose due date is present and does not parse as a date is in
  neither bucket.
\<close>

theorem triage_invalid_excluded:
  assumes "dueDate r = Some s" "parse s = None"
  shows "r \<notin> set (overdue (triageBuckets parse z now reqs)) \<and>
         r \<notin> set (dueToday (triageBuckets parse z now reqs))"
  using assms by (simp add: triageBuckets_def Let_def isOverdue_def isToday_def)

theorem triage_invalid_excluded_witness:
  "dueDate (sample ''a'' [] (Some ''soon'') False) = Some ''soon'' \<and>
   sampleParse ''soon'' = None \<and>
   sample ''a'' [] (Some ''soon'') False \<notin>
     set (overdue (triageBuckets sampleParse (fixedZone 0) 1714644000000
       [sample ''a'' [] (Some ''soon'') False, sample ''c'' [] (Some ''2024-05-02'') False])) \<and>
   sample ''a'' [] (Some ''soon'') False \<notin>
     set (dueToday (triageBuckets sampleParse (fixedZone 0) 1714644000000
       [sample ''a'' [] (Some ''soon'') False, sample ''c'' [] (Some ''2024-05-02'') False]))"
proof -
  have d: "dueDate (sample ''a'' [] (Some ''soon'') False) = Some ''soon''"
    by (simp add: sample_def)
  have p: "sampleParse ''soon'' = None"
    by (simp add: sampleParse_def)
  from d p triage_invalid_excluded [of "sample ''a'' [] (Some ''soon'') False" "''soon''" sampleParse
      "fixedZone 0" 1714644000000
      "[sample ''a'' [] (Some ''soon'') False, sample ''c'' [] (Some ''2024-05-02'') False]"]
  show ?thesis by blast
qed

section \<open>The export reads back\<close>

lemma csv_end:
  "(st \<noteq> FieldStart \<and> st \<noteq> AfterCR) \<or> row \<noteq> [] \<Longrightarrow> csv st f row [] = [row @ [f]]"
  by (cases st; cases row) simp_all

lemma csv_Unquoted_delim: "delim r \<Longrightarrow> csv Unquoted f row r = atDelim f row r"
  by (cases r) (auto simp: delim_def atDelim_def)

lemma csv_QuoteSeen_delim: "delim r \<Longrightarrow> csv QuoteSeen f row r = atDelim f row r"
  by (cases r) (auto simp: delim_def atDelim_def)

lemma csv_FieldStart_delim:
  "delim r \<Longrightarrow> r = [] \<longrightarrow> row \<noteq> [] \<Longrightarrow> csv FieldStart [] row r = atDelim [] row r"
  by (cases r) (auto simp: delim_def atDelim_def csv_end)

lemma csv_Unquoted_plain:
  "\<not> needsQuote s \<Longrightarrow> creturn \<notin> set s \<Longrightarrow>
   csv Unquoted f row (s @ r) = csv Unquoted (f @ s) row r"
  by (induction s arbitrary: f) (auto simp: needsQuote_def)

lemma csv_FieldStart_plain:
  "\<not> needsQuote s \<Longrightarrow> creturn \<notin> set s \<Longrightarrow> s \<noteq> [] \<Longrightarrow>
   csv FieldStart [] row (s @ r) = csv Unquoted s row r"
proof (cases s)
  case Nil
  assume "s \<noteq> []"
  with Nil show ?thesis by simp
next
  case (Cons c cs)
  assume n: "\<not> needsQuote s" and k: "creturn \<notin> set s"
  with Cons have c: "c \<noteq> dquote" "c \<noteq> comma" "c \<noteq> newline" "c \<noteq> creturn"
    and cs: "\<not> needsQuote cs" "creturn \<notin> set cs"
    by (auto simp: needsQuote_def)
  have "csv FieldStart [] row (s @ r) = csv Unquoted [c] row (cs @ r)"
    using Cons c by simp
  also have "\<dots> = csv Unquoted ([c] @ cs) row r"
    using cs by (rule csv_Unquoted_plain)
  finally show ?thesis using Cons by simp
qed

lemma csv_Quoted_doubled:
  "csv Quoted f row (doubleQuotes s @ dquote # r) = csv QuoteSeen (f @ s) row r"
  by (induction s arbitrary: f) (simp_all add: doubleQuotes_def)

lemma csv_esc:
  assumes "delim r" and "r = [] \<longrightarrow> row \<noteq> [] \<or> s \<noteq> []" and "readable s"
  shows "csv FieldStart [] row (esc s @ r) = atDelim s row r"
proof (cases "needsQuote s")
  case True
  then have "csv FieldStart [] row (esc s @ r) = csv Quoted [] row (doubleQuotes s @ dquote # r)"
    by (simp add: esc_def)
  also have "\<dots> = csv QuoteSeen s row r"
    using csv_Quoted_doubled [of "[]" row s r] by simp
  finally show ?thesis
    using assms(1) by (simp add: csv_QuoteSeen_delim)
next
  case False
  with assms(3) have k: "creturn \<notin> set s" by (simp add: readable_def)
  show ?thesis
  proof (cases "s = []")
    case True
    with assms show ?thesis
      by (simp add: esc_def needsQuote_def csv_FieldStart_delim)
  next
    case ne: False
    with False k have "csv FieldStart [] row (esc s @ r) = csv Unquoted s row r"
      by (simp add: esc_def csv_FieldStart_plain)
    with assms(1) show ?thesis
      by (simp add: csv_Unquoted_delim)
  qed
qed

lemma csv_line:
  assumes "r = [] \<or> hd r = newline"
  shows "fs \<noteq> [] \<Longrightarrow> row \<noteq> [] \<or> 2 \<le> length fs \<Longrightarrow> \<forall>f \<in> set fs. readable f \<Longrightarrow>
    csv FieldStart [] row (join [comma] (map esc fs) @ r) = atLineEnd (row @ fs) r"
proof (induction fs arbitrary: row)
  case Nil
  then show ?case by simp
next
  case (Cons f fs)
  from Cons.prems(3) have rf: "readable f" and rfs: "\<forall>g \<in> set fs. readable g" by simp_all
  show ?case
  proof (cases fs)
    case Nil
    with Cons.prems have row: "row \<noteq> []" by simp
    have d: "delim r" using assms by (cases r) (auto simp: delim_def)
    have "csv FieldStart [] row (esc f @ r) = atDelim f row r"
      using d row rf by (intro csv_esc) simp_all
    also have "\<dots> = atLineEnd (row @ [f]) r"
      using assms by (cases r) (auto simp: atDelim_def atLineEnd_def)
    finally show ?thesis using Nil by simp
  next
    case (Cons g gs)
    have "csv FieldStart [] row (join [comma] (map esc (f # fs)) @ r)
        = csv FieldStart [] row (esc f @ comma # (join [comma] (map esc fs) @ r))"
      using Cons by simp
    also have "\<dots> = atDelim f row (comma # (join [comma] (map esc fs) @ r))"
      using rf by (intro csv_esc) (simp_all add: delim_def)
    also have "\<dots> = csv FieldStart [] (row @ [f]) (join [comma] (map esc fs) @ r)"
      by (simp add: atDelim_def)
    also have "\<dots> = atLineEnd ((row @ [f]) @ fs) r"
      using Cons rfs by (intro Cons.IH) simp_all
    finally show ?thesis by simp
  qed
qed

lemma csv_lines:
  "ls \<noteq> [] \<Longrightarrow> \<forall>l \<in> set ls. 2 \<le> length l \<and> (\<forall>f \<in> set l. readable f) \<Longrightarrow>
   csv FieldStart [] [] (join [newline] (map (\<lambda>l. join [comma] (map esc l)) ls)) = ls"
proof (induction ls)
  case Nil
  then show ?case by simp
next
  case (Cons l ls)
  from Cons.prems have l: "l \<noteq> []" "2 \<le> length l" "\<forall>f \<in> set l. readable f" by auto
  show ?case
  proof (cases ls)
    case Nil
    have "csv FieldStart [] [] (join [comma] (map esc l) @ []) = atLineEnd ([] @ l) []"
      using l by (intro csv_line) simp_all
    with Nil show ?thesis by (simp add: atLineEnd_def)
  next
    case (Cons m ms)
    let ?rest = "join [newline] (map (\<lambda>l. join [comma] (map esc l)) ls)"
    have "csv FieldStart [] [] (join [comma] (map esc l) @ newline # ?rest)
        = atLineEnd ([] @ l) (newline # ?rest)"
      using l by (intro csv_line) simp_all
    also have "\<dots> = l # csv FieldStart [] [] ?rest"
      by (simp add: atLineEnd_def)
    also have "\<dots> = l # ls"
      using Cons Cons.prems Cons.IH by simp
    finally show ?thesis using Cons by simp
  qed
qed

lemma esc_headers: "map esc headers = headers"
  by (simp add: headers_def esc_def needsQuote_def)

lemma readable_headers: "\<forall>h \<in> set headers. readable h"
  by (simp add: headers_def readable_def)

lemma toCSV_lines:
  "toCSV rows = join [newline] (map (\<lambda>l. join [comma] (map esc l)) (headers # map cells rows))"
  by (simp add: toCSV_def esc_headers comp_def)

lemma parse_toCSV:
  assumes "\<forall>r \<in> set rows. \<forall>c \<in> set (cells r). readable c"
  shows "parseCSV (toCSV rows) = headers # map cells rows"
  unfolding parseCSV_def toCSV_lines
proof (rule csv_lines)
  show "headers # map cells rows \<noteq> []" by simp
  show "\<forall>l \<in> set (headers # map cells rows). 2 \<le> length l \<and> (\<forall>f \<in> set l. readable f)"
  proof
    fix l assume "l \<in> set (headers # map cells rows)"
    then consider "l = headers" | r where "r \<in> set rows" "l = cells r" by auto
    then show "2 \<le> length l \<and> (\<forall>f \<in> set l. readable f)"
    proof cases
      case 1
      then show ?thesis using readable_headers by (simp add: headers_def)
    next
      case 2
      with assms show ?thesis by (simp add: cells_def)
    qed
  qed
qed

lemma join_lines: "join [newline] (l # ls) = l @ concat (map (\<lambda>x. newline # x) ls)"
  by (induction ls arbitrary: l) simp_all

text \<open>
  The export starts with the header line, followed by one line per request; a cell with
  a comma, a double quote or a line feed is wrapped in double quotes with its double
  quotes doubled, any other cell is written as it is; and when every cell that is
  written as it is has no carriage return, reading the export back gives the header
  cells and, for every request, the text of its eight cells.
\<close>

lemma toCSV_reads_back:
  "toCSV rows =
     ''createdAt,name,description,dueDate,priority,status,devNotes,pinned'' @
     concat (map (\<lambda>r. newline # join [comma] (map esc (cells r))) rows)"
  "esc str =
     (if \<exists>c \<in> set str. c = comma \<or> c = dquote \<or> c = newline
      then [dquote] @ concat (map (\<lambda>c. if c = dquote then [dquote, dquote] else [c]) str) @ [dquote]
      else str)"
  "cells r =
     [createdAt r, name r, description r, (case dueDate r of None \<Rightarrow> [] | Some d \<Rightarrow> d),
      priority r, status r, devNotes r, (if pinned r then ''true'' else ''false'')]"
  "\<forall>r \<in> set rows. \<forall>c \<in> set (cells r). readable c \<Longrightarrow>
   parseCSV (toCSV rows) =
     [''createdAt'', ''name'', ''description'', ''dueDate'', ''priority'', ''status'',
      ''devNotes'', ''pinned''] # map cells rows"
proof -
  show "toCSV rows =
     ''createdAt,name,description,dueDate,priority,status,devNotes,pinned'' @
     concat (map (\<lambda>r. newline # join [comma] (map esc (cells r))) rows)"
    by (simp add: toCSV_def join_lines headers_def comp_def)
  show "esc str =
     (if \<exists>c \<in> set str. c = comma \<or> c = dquote \<or> c = newline
      then [dquote] @ concat (map (\<lambda>c. if c = dquote then [dquote, dquote] else [c]) str) @ [dquote]
      else str)"
    by (auto simp: esc_def needsQuote_def doubleQuotes_def)
  show "cells r =
     [createdAt r, name r, description r, (case dueDate r of None \<Rightarrow> [] | Some d \<Rightarrow> d),
      priority r, status r, devNotes r, (if pinned r then ''true'' else ''false'')]"
    by (cases "dueDate r") (simp_all add: cells_def)
  show "parseCSV (toCSV rows) =
     [''createdAt'', ''name'', ''description'', ''dueDate'', ''priority'', ''status'',
      ''devNotes'', ''pinned''] # map cells rows"
    if "\<forall>r \<in> set rows. \<forall>c \<in> set (cells r). readable c"
    using parse_toCSV [OF that] by (simp add: headers_def)
qed

lemma toCSV_reads_back_example:
  "parseCSV (toCSV
     [(sample ''a'' ''2024-05-01'' None True)
        \<lparr>name := [CHR ''A'', comma, CHR '' '', dquote, CHR ''b'', dquote],
         devNotes := [CHR ''x'', newline, creturn, CHR ''y'']\<rparr>])
   = [[''createdAt'', ''name'', ''description'', ''dueDate'', ''priority'', ''status'',
       ''devNotes'', ''pinned''],
      [''2024-05-01'', [CHR ''A'', comma, CHR '' '', dquote, CHR ''b'', dquote], ''Bracket'', [],
       ''High'', ''New'', [CHR ''x'', newline, creturn, CHR ''y''], ''true'']]"
proof -
  let ?r = "(sample ''a'' ''2024-05-01'' None True)
        \<lparr>name := [CHR ''A'', comma, CHR '' '', dquote, CHR ''b'', dquote],
         devNotes := [CHR ''x'', newline, creturn, CHR ''y'']\<rparr>"
  have c: "cells ?r = [''2024-05-01'', [CHR ''A'', comma, CHR '' '', dquote, CHR ''b'', dquote],
      ''Bracket'', [], ''High'', ''New'', [CHR ''x'', newline, creturn, CHR ''y''], ''true'']"
    by (simp add: cells_def sample_def)
  have "\<forall>r \<in> set [?r]. \<forall>c \<in> set (cells r). readable c"
    unfolding list.set ball_simps c by (simp add: readable_def needsQuote_def)
  from toCSV_reads_back(4) [OF this] c show ?thesis by simp
qed


section \<open>Creating a request\<close>

text \<open>
  Claim C3. When the name or the description of the form is empty after trimming,
  \<^verbatim>\<open>submitRequest\<close> fails with a validation error, shown as an error toast; the
  collection is as it was, and so is every other part of the state.
\<close>

theorem create_validation:
  assumes "trim (formName st) = [] \<or> trim (formDesc st) = []"
  shows "\<exists>msg. submitRequest cfg u1 u2 nowIso toISOString st =
           (Failed (ValidationError msg),
            st\<lparr>toasts := toasts st @ [\<lparr>tid = u1, message = msg, tone = ''error''\<rparr>]\<rparr>) \<and>
         requests (snd (submitRequest cfg u1 u2 nowIso toISOString st)) = requests st"
  using assms by (auto simp: submitRequest_def pushToast_def)

theorem create_validation_witness:
  "(trim (formName sampleHub) = [] \<or> trim (formDesc sampleHub) = []) \<and>
   submitRequest sampleConfig ''u1'' ''u2'' ''2024-05-02T10:00:00.000Z'' (\<lambda>s. Some s) sampleHub =
     (Failed (ValidationError ''Name is required''),
      sampleHub\<lparr>toasts := [\<lparr>tid = ''u1'', message = ''Name is required'', tone = ''error''\<rparr>]\<rparr>) \<and>
   requests (snd (submitRequest sampleConfig ''u1'' ''u2'' ''2024-05-02T10:00:00.000Z''
     (\<lambda>s. Some s) sampleHub)) = requests sampleHub"
proof -
  have t: "trim (formName sampleHub) = []"
    by (simp add: sampleHub_def initialHub_def trim_def isWhite_def)
  then have h: "trim (formName sampleHub) = [] \<or> trim (formDesc sampleHub) = []" by simp
  have e: "submitRequest sampleConfig ''u1'' ''u2'' ''2024-05-02T10:00:00.000Z'' (\<lambda>s. Some s) sampleHub =
     (Failed (ValidationError ''Name is required''),
      sampleHub\<lparr>toasts := [\<lparr>tid = ''u1'', message = ''Name is required'', tone = ''error''\<rparr>]\<rparr>)"
    using t by (simp add: submitRequest_def pushToast_def sampleHub_def initialHub_def)
  from h e create_validation [OF h, of sampleConfig "''u1''" "''u2''" "''2024-05-02T10:00:00.000Z''" "\<lambda>s. Some s"]
  show ?thesis by simp
qed

section \<open>Updating a request\<close>

lemma map_merge_other:
  "i \<notin> rid ` set rs \<Longrightarrow> map (\<lambda>r. if rid r = i then merge r c else r) rs = rs"
  by (induction rs) auto

text \<open>
  Claim C7. \<^verbatim>\<open>updateRequest\<close> with an id that no request of the collection has
  leaves the collection as it is and shows no toast; nothing but the selected request of
  the detail drawer can differ afterwards.
\<close>

theorem update_unknown_id:
  assumes "i \<notin> rid ` set (requests st)"
  shows "requests (updateRequest i c st) = requests st \<and>
         toasts (updateRequest i c st) = toasts st \<and>
         updateRequest i c st = st\<lparr>selected := selected (updateRequest i c st)\<rparr>"
  using assms by (simp add: updateRequest_def map_merge_other)

theorem update_unknown_id_witness:
  "''zz'' \<notin> rid ` set (requests sampleHub) \<and>
   updateRequest ''zz''
     \<lparr>c_rid = None, c_createdAt = None, c_name = None, c_description = None, c_dueDate = None,
      c_priority = None, c_status = None, c_devNotes = None, c_pinned = Some True, c_synced = None\<rparr>
     sampleHub = sampleHub"
proof -
  have h: "''zz'' \<notin> rid ` set (requests sampleHub)"
    by (simp add: sampleHub_def initialHub_def sample_def)
  have s: "selected sampleHub = None"
    by (simp add: sampleHub_def initialHub_def)
  from h s update_unknown_id [OF h, of
     "\<lparr>c_rid = None, c_createdAt = None, c_name = None, c_description = None, c_dueDate = None,
      c_priority = None, c_status = None, c_devNotes = None, c_pinned = Some True, c_synced = None\<rparr>"]
  show ?thesis by (simp add: updateRequest_def)
qed

section \<open>Refreshing from the sheet\<close>

text \<open>
  Claim C6. When the \<^verbatim>\<open>fetch\<close> of a refresh rejects, or the body is not JSON, or
  the JSON has no \<^verbatim>\<open>rows\<close>, or \<^verbatim>\<open>rows\<close> is not an array, the collection is
  left as it is, the failure is a \<^verbatim>\<open>SyncPullError\<close> shown as the error toast
  \<^verbatim>\<open>Refresh failed\<close>, and the only other change is that the loading flag is reset.
\<close>

theorem refresh_failure:
  assumes "outcome = NetworkError \<or>
           (\<exists>res. outcome = Response res \<and>
              (resJson parseJson res = None \<or>
               (\<exists>data. resJson parseJson res = Some data \<and>
                  (getRows data = None \<or> \<not> isArray (getRows data)))))"
  shows "refreshSettled parseJson asRequest u outcome st =
           (Some SyncPullError,
            st\<lparr>toasts := toasts st @ [\<lparr>tid = u, message = ''Refresh failed'', tone = ''error''\<rparr>],
               loadingRefresh := False\<rparr>) \<and>
         requests (snd (refreshSettled parseJson asRequest u outcome st)) = requests st"
  using assms by (auto simp: refreshSettled_def pushToast_def Let_def)

theorem refresh_failure_witness:
  "refreshSettled (\<lambda>s. Some (JObj [(''rows'', JStr ''not-an-array'')])) (\<lambda>j. sample [] [] None False)
     ''u'' (Response (Readable 200 ''{\"rows\":\"not-an-array\"}'')) sampleHub =
     (Some SyncPullError,
      sampleHub\<lparr>toasts := [\<lparr>tid = ''u'', message = ''Refresh failed'', tone = ''error''\<rparr>],
         loadingRefresh := False\<rparr>) \<and>
   requests (snd (refreshSettled (\<lambda>s. Some (JObj [(''rows'', JStr ''not-an-array'')]))
     (\<lambda>j. sample [] [] None False) ''u''
     (Response (Readable 200 ''{\"rows\":\"not-an-array\"}'')) sampleHub)) = requests sampleHub"
proof -
  let ?p = "\<lambda>s::string. Some (JObj [(''rows'', JStr ''not-an-array'')])"
  let ?o = "Response (Readable 200 ''{\"rows\":\"not-an-array\"}'')"
  have h: "?o = NetworkError \<or>
           (\<exists>res. ?o = Response res \<and>
              (resJson ?p res = None \<or>
               (\<exists>data. resJson ?p res = Some data \<and>
                  (getRows data = None \<or> \<not> isArray (getRows data)))))"
    by simp
  have t: "toasts sampleHub = []"
    by (simp add: sampleHub_def initialHub_def)
  from refresh_failure [OF h, of "\<lambda>j. sample [] [] None False" "''u''" sampleHub] t
  show ?thesis by simp
qed

section \<open>Pushing a request\<close>

lemma setSynced_marks:
  assumes "r \<in> set (setSynced i b rs)" "rid r = i"
  shows "synced r = b"
proof -
  from assms(1) have "r \<in> (\<lambda>r. if rid r = i then r\<lparr>synced := b\<rparr> else r) ` set rs"
    by (simp add: setSynced_def)
  then obtain x where x: "r = (if rid x = i then x\<lparr>synced := b\<rparr> else x)"
    by (rule imageE)
  show ?thesis
  proof (cases "rid x = i")
    case True
    with x show ?thesis by simp
  next
    case False
    with x assms(2) show ?thesis by simp
  qed
qed

lemma submitSettled_rejected:
  "submitSettled i u NetworkError st =
     (Some SyncPushError,
      st\<lparr>requests := setSynced i False (requests st),
         toasts := toasts st @ [\<lparr>tid = u, message = ''Failed to sync. You can retry.'', tone = ''error''\<rparr>],
         loadingSubmit := False, formOpenMobile := False\<rparr>)"
  by (simp add: submitSettled_def pushToast_def)

lemma submitSettled_resolved:
  "requests (snd (submitSettled i u (Response res) st)) = setSynced i True (requests st)"
  by (simp add: submitSettled_def)

lemma retrySync_rejected:
  "SHEETS_ENDPOINT cfg \<noteq> [] \<Longrightarrow>
   retrySync cfg req u NetworkError st =
     (Some SyncPushError,
      st\<lparr>toasts := toasts st @ [\<lparr>tid = u, message = ''Sync failed'', tone = ''error''\<rparr>]\<rparr>)"
  by (simp add: retrySync_def pushToast_def)

lemma retrySync_resolved:
  "SHEETS_ENDPOINT cfg \<noteq> [] \<Longrightarrow>
   requests (snd (retrySync cfg req u (Response res) st)) = setSynced (rid req) True (requests st)"
  by (simp add: retrySync_def pushToast_def)

text \<open>
  Claim C2, amended. With an endpoint configured, a push whose \<^verbatim>\<open>fetch\<close> rejects
  is a sync failure: after \<^verbatim>\<open>submitRequest\<close> the request is marked
  \<^verbatim>\<open>synced = false\<close> and an error toast is shown; after \<^verbatim>\<open>retrySync\<close> an
  error toast is shown and the collection is as it was, so a request that was not synced
  stays so. A push whose \<^verbatim>\<open>fetch\<close> resolves, with whatever response, marks the
  request \<^verbatim>\<open>synced = true\<close>.
\<close>

theorem push_failure:
  assumes "SHEETS_ENDPOINT cfg \<noteq> []"
  shows "submitSettled i u NetworkError st =
           (Some SyncPushError,
            st\<lparr>requests := setSynced i False (requests st),
               toasts := toasts st @ [\<lparr>tid = u, message = ''Failed to sync. You can retry.'', tone = ''error''\<rparr>],
               loadingSubmit := False, formOpenMobile := False\<rparr>) \<and>
         (\<forall>r \<in> set (requests (snd (submitSettled i u NetworkError st))). rid r = i \<longrightarrow> \<not> synced r) \<and>
         retrySync cfg req u NetworkError st =
           (Some SyncPushError,
            st\<lparr>toasts := toasts st @ [\<lparr>tid = u, message = ''Sync failed'', tone = ''error''\<rparr>]\<rparr>) \<and>
         requests (snd (submitSettled i u (Response res) st)) = setSynced i True (requests st) \<and>
         requests (snd (retrySync cfg req u (Response res) st)) = setSynced (rid req) True (requests st)"
proof -
  have "\<forall>r \<in> set (requests (snd (submitSettled i u NetworkError st))). rid r = i \<longrightarrow> \<not> synced r"
    using setSynced_marks [of _ i False "requests st"]
    by (simp add: submitSettled_rejected)
  with assms show ?thesis
    by (simp only: submitSettled_rejected submitSettled_resolved retrySync_rejected
        retrySync_resolved simp_thms)
qed

theorem push_failure_witness:
  "SHEETS_ENDPOINT sampleConfig \<noteq> [] \<and>
   map synced (requests (snd (submitSettled ''a'' ''u'' NetworkError sampleHub))) = [False] \<and>
   snd (retrySync sampleConfig (sample ''a'' [] None False) ''u'' NetworkError sampleHub) =
     sampleHub\<lparr>toasts := [\<lparr>tid = ''u'', message = ''Sync failed'', tone = ''error''\<rparr>]\<rparr> \<and>
   map synced (requests (snd (retrySync sampleConfig (sample ''a'' [] None False) ''u''
     (Response Opaque) sampleHub))) = [True]"
proof -
  have h: "SHEETS_ENDPOINT sampleConfig \<noteq> []"
    by (simp add: sampleConfig_def)
  have t: "toasts sampleHub = []" and r: "requests sampleHub = [(sample ''a'' [] None False)\<lparr>synced := False\<rparr>]"
    by (simp_all add: sampleHub_def initialHub_def)
  from push_failure [OF h, of "''a''" "''u''" sampleHub "sample ''a'' [] None False" Opaque] h t r
  show ?thesis by (simp add: setSynced_def sample_def)
qed

text \<open>
  The claim as it was written counts an opaque response as a failure. The requests are
  sent with \<^verbatim>\<open>mode: "no-cors"\<close>, every response to them is opaque, and the code
  marks the request synced without looking at it.
\<close>

theorem push_opaque_counterexample:
  "map synced (requests (snd (submitSettled ''a'' ''u'' (Response Opaque) sampleHub))) = [True] \<and>
   fst (submitSettled ''a'' ''u'' (Response Opaque) sampleHub) = None \<and>
   toasts (snd (submitSettled ''a'' ''u'' (Response Opaque) sampleHub)) = []"
  by (simp add: submitSettled_def setSynced_def sampleHub_def initialHub_def sample_def)

section \<open>No save before the load\<close>

text \<open>The handlers modelled above leave \<^verbatim>\<open>hydrated\<close> alone.\<close>

lemma handlers_keep_hydrated:
  "hydrated (snd (submitRequest cfg u1 u2 nowIso toISOString st)) = hydrated st"
  "hydrated (snd (submitSettled i u outcome st)) = hydrated st"
  "hydrated (snd (retrySync cfg req u outcome st)) = hydrated st"
  "hydrated (snd (refreshFromSheet cfg u st)) = hydrated st"
  "hydrated (snd (refreshSettled parseJson asRequest u outcome st)) = hydrated st"
  "hydrated (updateRequest i c st) = hydrated st"
  "hydrated (pushToast u m t st) = hydrated st"
  "hydrated (removeToast u st) = hydrated st"
  by (simp_all add: submitRequest_def submitSettled_def retrySync_def refreshFromSheet_def
      refreshSettled_def updateRequest_def pushToast_def removeToast_def Let_def
      split: option.splits fetched.splits)

lemma loadFirst_append_other:
  assumes "loadFirst es" "\<And>c. e \<noteq> Saved c"
  shows "loadFirst (es @ [e])"
  unfolding loadFirst_def
proof (intro allI impI)
  fix pre c post
  assume x: "es @ [e] = pre @ Saved c # post"
  show "Loaded \<in> set pre"
  proof (cases post rule: rev_cases)
    case Nil
    with x have "e = Saved c" by simp
    with assms(2) [of c] show ?thesis by simp
  next
    case (snoc post' y)
    with x have "es = pre @ Saved c # post'" by simp
    with assms(1) show ?thesis unfolding loadFirst_def by blast
  qed
qed

lemma loadFirst_append_Saved:
  assumes "loadFirst es" "Loaded \<in> set es"
  shows "loadFirst (es @ [Saved c])"
  unfolding loadFirst_def
proof (intro allI impI)
  fix pre c' post
  assume e: "es @ [Saved c] = pre @ Saved c' # post"
  show "Loaded \<in> set pre"
  proof (cases post rule: rev_cases)
    case Nil
    with e have "pre = es" by simp
    with assms(2) show ?thesis by simp
  next
    case (snoc post' x)
    with e have "es = pre @ Saved c' # post'" by simp
    with assms(1) show ?thesis unfolding loadFirst_def by blast
  qed
qed

lemma loadEffect_hydrated: "hydrated (loadEffect parseJson asRequest saved st)"
  by (simp add: loadEffect_def Let_def)

lemma reach_invariant:
  assumes "reach parseJson asRequest stringify saved0 w"
  shows "loadFirst (trace w) \<and>
         (hydrated (current w) \<or> hydrated (rendered w) \<longrightarrow> Loaded \<in> set (trace w))"
  using assms
proof (induction rule: reach.induct)
  case mount
  show ?case by (simp add: loadFirst_def initialHub_def)
next
  case (render w)
  then show ?case by auto
next
  case (load w)
  then show ?case by (simp add: loadFirst_append_other)
next
  case (persist w)
  then show ?case by (auto simp: loadFirst_append_Saved)
next
  case (handler w h)
  then show ?case by (simp add: loadFirst_append_other)
qed

text \<open>
  The load applies what it reads: on a state with no requests, or with the stored ones
  already, it leaves the stored collection, which is empty when nothing usable is stored.
\<close>

lemma loadEffect_requests:
  assumes "requests st = [] \<or> requests st = storedCollection parseJson asRequest saved"
  shows "requests (loadEffect parseJson asRequest saved st) =
         storedCollection parseJson asRequest saved"
proof (cases saved)
  case None
  with assms show ?thesis by (simp add: loadEffect_def)
next
  case (Some str)
  show ?thesis
  proof (cases "str = []")
    case True
    with Some assms show ?thesis by (simp add: loadEffect_def)
  next
    case False
    show ?thesis
    proof (cases "parseJson str")
      case None
      with Some False assms show ?thesis by (simp add: loadEffect_def)
    next
      case (Some parsed)
      with \<open>saved = Some str\<close> False assms show ?thesis
        by (cases parsed) (simp_all add: loadEffect_def)
    qed
  qed
qed

lemma quiet_snoc: "quiet (es @ [e]) = (quiet es \<and> e = Loaded)"
  by (auto simp: quiet_def)

lemma quiet_Nil: "quiet []"
  by (simp add: quiet_def)

lemma quiet_Cons: "quiet (x # xs) = (x = Loaded \<and> quiet xs)"
  by (simp add: quiet_def)

lemma quiet_no_Saved: "quiet es \<Longrightarrow> Saved c \<notin> set es"
  by (auto simp: quiet_def)

lemma firstSaved_snoc:
  "firstSaved (es @ [e]) =
     (case firstSaved es of
        Some c \<Rightarrow> Some c
      | None \<Rightarrow> if quiet es then firstSaved [e] else None)"
proof (induction es)
  case Nil
  show ?case by (simp add: quiet_Nil)
next
  case (Cons x xs)
  then show ?case by (cases x) (simp_all add: quiet_Cons)
qed

text \<open>Until the first save the storage holds what the earlier visit has left.\<close>

lemma reach_storage:
  assumes "reach parseJson asRequest stringify saved0 w"
  shows "(\<forall>c. Saved c \<notin> set (trace w)) \<longrightarrow> storage w = saved0"
  using assms
proof (induction rule: reach.induct)
  case mount
  show ?case by simp
next
  case (render w)
  then show ?case by simp
next
  case (load w)
  then show ?case by simp
next
  case (persist w)
  then show ?case by (auto simp: persistEffect_def)
next
  case (handler w h)
  then show ?case by simp
qed

text \<open>
  While only loads have run, a state with the flag set holds the stored collection, and a
  state with the flag unset holds no requests.
\<close>

lemma reach_quiet:
  assumes "reach parseJson asRequest stringify saved0 w"
  shows "quiet (trace w) \<longrightarrow>
           requests (current w) =
             (if hydrated (current w) then storedCollection parseJson asRequest saved0 else []) \<and>
           requests (rendered w) =
             (if hydrated (rendered w) then storedCollection parseJson asRequest saved0 else [])"
  using assms
proof (induction rule: reach.induct)
  case mount
  show ?case by (simp add: initialHub_def)
next
  case (render w)
  then show ?case by simp
next
  case (load w)
  show ?case
  proof (cases "quiet (trace w)")
    case False
    then show ?thesis by (simp add: quiet_snoc)
  next
    case True
    with load.IH have
      c: "requests (current w) =
            (if hydrated (current w) then storedCollection parseJson asRequest saved0 else [])" and
      r: "requests (rendered w) =
            (if hydrated (rendered w) then storedCollection parseJson asRequest saved0 else [])"
      by simp_all
    from True have s: "storage w = saved0"
      using reach_storage [OF load.hyps] by (simp add: quiet_no_Saved)
    from c have "requests (current w) = [] \<or>
                 requests (current w) = storedCollection parseJson asRequest saved0"
      by (cases "hydrated (current w)") simp_all
    with s have "requests (loadEffect parseJson asRequest (storage w) (current w)) =
                 storedCollection parseJson asRequest saved0"
      by (simp add: loadEffect_requests)
    with r show ?thesis by (simp add: loadEffect_hydrated)
  qed
next
  case (persist w)
  then show ?case by (simp add: quiet_snoc)
next
  case (handler w h)
  then show ?case by (simp add: quiet_snoc)
qed

text \<open>
  The first save, when only loads came before it, writes the stored collection.
\<close>

lemma reach_firstSaved:
  assumes "reach parseJson asRequest stringify saved0 w"
  shows "\<forall>c. firstSaved (trace w) = Some c \<longrightarrow> c = storedCollection parseJson asRequest saved0"
  using assms
proof (induction rule: reach.induct)
  case mount
  show ?case by simp
next
  case (render w)
  then show ?case by simp
next
  case (load w)
  then show ?case by (simp add: firstSaved_snoc split: option.splits)
next
  case (persist w)
  show ?case
  proof (cases "hydrated (rendered w)")
    case False
    with persist.IH show ?thesis by simp
  next
    case True
    with reach_quiet [OF persist.hyps] have
      "quiet (trace w) \<longrightarrow> requests (rendered w) = storedCollection parseJson asRequest saved0"
      by simp
    with persist.IH True show ?thesis by (simp add: firstSaved_snoc split: option.splits)
  qed
next
  case (handler w h)
  then show ?case by (simp add: firstSaved_snoc split: option.splits)
qed

text \<open>
  Claim C9. In every execution, every save to local storage comes after a load, and the
  load's result has been applied when the first save runs. The order rests on the flag:
  a render has \<^verbatim>\<open>hydrated\<close> set only after a load, which applies what it read in
  the same step; the persist effect leaves the storage alone when the render it belongs
  to has the flag unset; and the flag starts unset. So the storage holds what the earlier
  visit has left until the first save; the load on the initial state leaves the stored
  collection, or the empty collection when nothing usable was stored, and sets the flag;
  and the first save, when no handler has changed the state before it, writes that
  collection back.
\<close>

theorem save_after_load:
  assumes "reach parseJson asRequest stringify saved0 w"
  shows "loadFirst (trace w) \<and>
         (hydrated (rendered w) \<longrightarrow> Loaded \<in> set (trace w)) \<and>
         (\<not> hydrated (rendered w) \<longrightarrow>
            persistEffect stringify (rendered w) (storage w) = storage w) \<and>
         \<not> hydrated initialHub \<and>
         (\<forall>c. firstSaved (trace w) = Some c \<longrightarrow>
            c = storedCollection parseJson asRequest saved0) \<and>
         ((\<forall>c. Saved c \<notin> set (trace w)) \<longrightarrow> storage w = saved0) \<and>
         requests (loadEffect parseJson asRequest saved0 initialHub) =
           storedCollection parseJson asRequest saved0 \<and>
         hydrated (loadEffect parseJson asRequest saved0 initialHub)"
  using reach_invariant [OF assms] reach_firstSaved [OF assms] reach_storage [OF assms]
    loadEffect_requests [of initialHub parseJson asRequest saved0]
  by (simp add: persistEffect_def loadEffect_hydrated initialHub_def)

theorem save_after_load_witness:
  "reach (\<lambda>s. if s = ''[1]'' then Some (JArr [JNum 1]) else None)
     (\<lambda>j. sample ''a'' ''2024-05-01'' None False)
     (\<lambda>rs. if rs = [] then ''[]'' else ''[1]'')
     (Some ''[1]'')
     \<lparr>current = initialHub\<lparr>requests := [sample ''a'' ''2024-05-01'' None False], hydrated := True\<rparr>,
      rendered = initialHub\<lparr>requests := [sample ''a'' ''2024-05-01'' None False], hydrated := True\<rparr>,
      storage = Some ''[1]'',
      trace = [Loaded, Saved [sample ''a'' ''2024-05-01'' None False]]\<rparr> \<and>
   loadFirst [Loaded, Saved [sample ''a'' ''2024-05-01'' None False]] \<and>
   firstSaved [Loaded, Saved [sample ''a'' ''2024-05-01'' None False]] =
     Some [sample ''a'' ''2024-05-01'' None False] \<and>
   storedCollection (\<lambda>s. if s = ''[1]'' then Some (JArr [JNum 1]) else None)
     (\<lambda>j. sample ''a'' ''2024-05-01'' None False) (Some ''[1]'') =
     [sample ''a'' ''2024-05-01'' None False]"
proof -
  let ?x = "sample ''a'' ''2024-05-01'' None False"
  let ?P = "\<lambda>s::string. if s = ''[1]'' then Some (JArr [JNum 1]) else None"
  let ?A = "\<lambda>j::json. ?x"
  let ?S = "\<lambda>rs::request list. if rs = [] then ''[]'' else ''[1]''"
  let ?h = "initialHub\<lparr>requests := [?x], hydrated := True\<rparr>"
  have r0: "reach ?P ?A ?S (Some ''[1]'')
     \<lparr>current = initialHub, rendered = initialHub, storage = Some ''[1]'', trace = []\<rparr>"
    by (rule reach.mount)
  have r1: "reach ?P ?A ?S (Some ''[1]'')
     \<lparr>current = ?h, rendered = initialHub, storage = Some ''[1]'', trace = [Loaded]\<rparr>"
    using reach.load [OF r0] by (simp add: loadEffect_def)
  have r2: "reach ?P ?A ?S (Some ''[1]'')
     \<lparr>current = ?h, rendered = ?h, storage = Some ''[1]'', trace = [Loaded]\<rparr>"
    using reach.render [OF r1] by simp
  have r3: "reach ?P ?A ?S (Some ''[1]'')
     \<lparr>current = ?h, rendered = ?h, storage = Some ''[1]'', trace = [Loaded, Saved [?x]]\<rparr>"
    using reach.persist [OF r2] by (simp add: persistEffect_def)
  from r3 save_after_load [OF r3] show ?thesis by simp
qed

end
